theory Spec2Isabelle
  imports Complex_Main
begin

section \<open>The graph store\<close>

text \<open>
  The repository keeps its data in a labelled property graph and talks to it through
  Cypher query strings (\<^verbatim>\<open>src/load_data.py\<close>, \<^verbatim>\<open>src/app.py\<close>). The store is modelled
  as a list of nodes and a list of relationships; a node's identity is its position in
  the list, since no query of the repository deletes anything.

  Scalar property values are null, strings, integers and booleans. A property that is
  absent reads as null, and setting a property to null removes it, so a property map is
  a total function into \<open>val\<close> with \<open>VNull\<close> for "absent". The one vector-valued
  property, \<^verbatim>\<open>description_embedding\<close>, has a field of its own; its components are
  idealised as real numbers (rounding of floating-point arithmetic is not modelled).
\<close>

datatype val = VNull | VStr string | VInt int | VBool bool

type_synonym dict = "string \<Rightarrow> val option"

record node =
  labels :: "string list"
  props :: "string \<Rightarrow> val"
  embedding :: "real list option"

record edge =
  etype :: string
  src :: nat
  dst :: nat
  eprops :: "string \<Rightarrow> val"

record graph =
  nodes :: "node list"
  edges :: "edge list"
  indexes :: "string list"

datatype error =
    KeyError string
  | ParameterMissing string
  | MergeNullProperty string
  | EncodeError
  | NameError string
  | FileError string
  | ModelLoadError
  | ValueError string
  | ServiceUnavailable
  | GenerationError string

subsection \<open>Cypher building blocks\<close>

text \<open>Cypher equality in a property pattern: a comparison with null never matches.\<close>

definition cy_eq :: "val \<Rightarrow> val \<Rightarrow> bool" where
  "cy_eq a b = (a \<noteq> VNull \<and> b \<noteq> VNull \<and> a = b)"

definition has_label :: "string \<Rightarrow> node \<Rightarrow> bool" where
  "has_label l n = (l \<in> set (labels n))"

text \<open>\<^verbatim>\<open>MATCH (x:L {id: v})\<close>: the positions of all nodes labelled \<open>L\<close> whose \<^verbatim>\<open>id\<close> equals \<open>v\<close>.\<close>

definition match_nodes :: "string \<Rightarrow> val \<Rightarrow> graph \<Rightarrow> nat list" where
  "match_nodes l v g =
     filter (\<lambda>i. has_label l (nodes g ! i) \<and> cy_eq (props (nodes g ! i) ''id'') v)
       [0..<length (nodes g)]"

definition new_node :: "string \<Rightarrow> val \<Rightarrow> node" where
  "new_node l v = \<lparr>labels = [l], props = (\<lambda>k. VNull)(''id'' := v), embedding = None\<rparr>"

text \<open>
  \<^verbatim>\<open>MERGE (x:L {id: v})\<close>: a null key is an error; otherwise the rows are the matching
  nodes, or one freshly created node when nothing matches.
\<close>

definition merge_node :: "string \<Rightarrow> val \<Rightarrow> graph \<Rightarrow> error + graph \<times> nat list" where
  "merge_node l v g =
     (if v = VNull then Inl (MergeNullProperty ''id'')
      else let m = match_nodes l v g in
        if m = [] then Inr (g\<lparr>nodes := nodes g @ [new_node l v]\<rparr>, [length (nodes g)])
        else Inr (g, m))"

text \<open>\<^verbatim>\<open>SET x.k = v, ...\<close> applied to every row.\<close>

definition set_node :: "(node \<Rightarrow> node) \<Rightarrow> nat list \<Rightarrow> graph \<Rightarrow> graph" where
  "set_node f rows g = fold (\<lambda>i h. h\<lparr>nodes := (nodes h)[i := f (nodes h ! i)]\<rparr>) rows g"

definition set_edge :: "(edge \<Rightarrow> edge) \<Rightarrow> nat list \<Rightarrow> graph \<Rightarrow> graph" where
  "set_edge f rows g = fold (\<lambda>j h. h\<lparr>edges := (edges h)[j := f (edges h ! j)]\<rparr>) rows g"

definition set_prop :: "string \<Rightarrow> val \<Rightarrow> node \<Rightarrow> node" where
  "set_prop k v n = n\<lparr>props := (props n)(k := v)\<rparr>"

definition set_eprop :: "string \<Rightarrow> val \<Rightarrow> edge \<Rightarrow> edge" where
  "set_eprop k v e = e\<lparr>eprops := (eprops e)(k := v)\<rparr>"

definition match_edges :: "string \<Rightarrow> nat \<Rightarrow> nat \<Rightarrow> graph \<Rightarrow> nat list" where
  "match_edges ty a b g =
     filter (\<lambda>j. etype (edges g ! j) = ty \<and> src (edges g ! j) = a \<and> dst (edges g ! j) = b)
       [0..<length (edges g)]"

definition new_edge :: "string \<Rightarrow> nat \<Rightarrow> nat \<Rightarrow> edge" where
  "new_edge ty a b = \<lparr>etype = ty, src = a, dst = b, eprops = (\<lambda>k. VNull)\<rparr>"

text \<open>
  \<^verbatim>\<open>MERGE (a)-[r:T]->(b)\<close> for one incoming row \<open>(a, b)\<close>: the rows going out are all
  existing relationships of that type between the two nodes, or one new relationship
  when there is none.
\<close>

definition merge_edge :: "string \<Rightarrow> nat \<times> nat \<Rightarrow> graph \<times> nat list \<Rightarrow> graph \<times> nat list" where
  "merge_edge ty ab st =
     (let g = fst st; m = match_edges ty (fst ab) (snd ab) g in
        if m = [] then (g\<lparr>edges := edges g @ [new_edge ty (fst ab) (snd ab)]\<rparr>,
                        snd st @ [length (edges g)])
        else (g, snd st @ m))"

definition merge_edges :: "string \<Rightarrow> (nat \<times> nat) list \<Rightarrow> graph \<Rightarrow> graph \<times> nat list" where
  "merge_edges ty pairs g = fold (merge_edge ty) pairs (g, [])"

text \<open>
  A query that mentions \<^verbatim>\<open>$k\<close> fails before it touches the store when the parameter
  dictionary has no entry \<open>k\<close>.
\<close>

fun need :: "string list \<Rightarrow> dict \<Rightarrow> error option" where
  "need [] d = None"
| "need (k # ks) d = (case d k of None \<Rightarrow> Some (ParameterMissing k) | Some v \<Rightarrow> need ks d)"

definition arg :: "dict \<Rightarrow> string \<Rightarrow> val" where
  "arg d k = (case d k of None \<Rightarrow> VNull | Some v \<Rightarrow> v)"

subsection \<open>The queries of \<^verbatim>\<open>load_data.py\<close>\<close>

text \<open>\<^verbatim>\<open>CREATE VECTOR INDEX product_description_embeddings IF NOT EXISTS ...\<close>\<close>

definition q_create_index :: "graph \<Rightarrow> error + graph" where
  "q_create_index g =
     (if ''product_description_embeddings'' \<in> set (indexes g) then Inr g
      else Inr (g\<lparr>indexes := indexes g @ [''product_description_embeddings'']\<rparr>))"

text \<open>
  \<^verbatim>\<open>MERGE (p:Product {id: $id}) SET p.name = $name, p.description = $description,
  p.price = $price, p.category = $category, p.description_embedding = $embedding\<close>
\<close>

definition q_product :: "val \<Rightarrow> val \<Rightarrow> val \<Rightarrow> val \<Rightarrow> val \<Rightarrow> real list \<Rightarrow> graph \<Rightarrow> error + graph" where
  "q_product pid name description price category emb g =
     (case merge_node ''Product'' pid g of
        Inl e \<Rightarrow> Inl e
      | Inr (h, rows) \<Rightarrow>
          Inr (set_node (\<lambda>n. (set_prop ''category'' category (set_prop ''price'' price
                 (set_prop ''description'' description (set_prop ''name'' name n))))
                 \<lparr>embedding := Some emb\<rparr>) rows h))"

text \<open>
  \<^verbatim>\<open>MERGE (s:Supplier {id: $id}) SET s.name = $name, s.location = $location,
  s.specialization = $specialization\<close>, with the fixture record as parameters.
\<close>

definition q_supplier :: "dict \<Rightarrow> graph \<Rightarrow> error + graph" where
  "q_supplier d g =
     (case need [''id'', ''name'', ''location'', ''specialization''] d of
        Some e \<Rightarrow> Inl e
      | None \<Rightarrow>
         (case merge_node ''Supplier'' (arg d ''id'') g of
            Inl e \<Rightarrow> Inl e
          | Inr (h, rows) \<Rightarrow>
              Inr (set_node (\<lambda>n. set_prop ''specialization'' (arg d ''specialization'')
                     (set_prop ''location'' (arg d ''location'')
                     (set_prop ''name'' (arg d ''name'') n))) rows h)))"

text \<open>
  \<^verbatim>\<open>MERGE (w:Warehouse {id: $id}) SET w.name = $name, w.location = $location,
  w.capacity = $capacity\<close>
\<close>

definition q_warehouse :: "dict \<Rightarrow> graph \<Rightarrow> error + graph" where
  "q_warehouse d g =
     (case need [''id'', ''name'', ''location'', ''capacity''] d of
        Some e \<Rightarrow> Inl e
      | None \<Rightarrow>
         (case merge_node ''Warehouse'' (arg d ''id'') g of
            Inl e \<Rightarrow> Inl e
          | Inr (h, rows) \<Rightarrow>
              Inr (set_node (\<lambda>n. set_prop ''capacity'' (arg d ''capacity'')
                     (set_prop ''location'' (arg d ''location'')
                     (set_prop ''name'' (arg d ''name'') n))) rows h)))"

text \<open>
  \<^verbatim>\<open>MATCH (w1:Warehouse {id: $from}) MATCH (w2:Warehouse {id: $to})
  MERGE (w1)-[r:CONNECTED_TO]->(w2) SET r.distance = $distance, r.duration = $duration\<close>
\<close>

definition q_route :: "dict \<Rightarrow> graph \<Rightarrow> error + graph" where
  "q_route d g =
     (case need [''from'', ''to'', ''distance'', ''duration''] d of
        Some e \<Rightarrow> Inl e
      | None \<Rightarrow>
          (let r = merge_edges ''CONNECTED_TO''
                     (List.product (match_nodes ''Warehouse'' (arg d ''from'') g)
                                   (match_nodes ''Warehouse'' (arg d ''to'') g)) g
           in Inr (set_edge (\<lambda>e. set_eprop ''duration'' (arg d ''duration'')
                      (set_eprop ''distance'' (arg d ''distance'') e)) (snd r) (fst r))))"

text \<open>
  \<^verbatim>\<open>MATCH (s:Supplier {id: $supplier_id}) MATCH (p:Product {id: $product_id})
  MERGE (s)-[:SUPPLIES]->(p)\<close>
\<close>

definition q_supplies :: "dict \<Rightarrow> graph \<Rightarrow> error + graph" where
  "q_supplies d g =
     (case need [''supplier_id'', ''product_id''] d of
        Some e \<Rightarrow> Inl e
      | None \<Rightarrow>
          Inr (fst (merge_edges ''SUPPLIES''
                 (List.product (match_nodes ''Supplier'' (arg d ''supplier_id'') g)
                               (match_nodes ''Product'' (arg d ''product_id'') g)) g)))"

text \<open>
  \<^verbatim>\<open>MATCH (p:Product {id: $product_id}) MATCH (w:Warehouse {id: $warehouse_id})
  MERGE (p)-[:STORED_AT]->(w)\<close>
\<close>

definition q_stored_at :: "dict \<Rightarrow> graph \<Rightarrow> error + graph" where
  "q_stored_at d g =
     (case need [''product_id'', ''warehouse_id''] d of
        Some e \<Rightarrow> Inl e
      | None \<Rightarrow>
          Inr (fst (merge_edges ''STORED_AT''
                 (List.product (match_nodes ''Product'' (arg d ''product_id'') g)
                               (match_nodes ''Warehouse'' (arg d ''warehouse_id'') g)) g)))"

section \<open>Effects: the store, the resource log, exceptions\<close>

text \<open>
  A Python function of the repository is a state transformer on a \<open>world\<close> that either
  returns a value or raises. The world is the store, the conversation history of the
  chat session, and a log: \<open>DriverCall\<close> records a call of \<^verbatim>\<open>GraphDatabase.driver\<close> with
  its arguments, \<open>DriverClose\<close> the closing of a driver, \<open>SessionOpen\<close> and
  \<open>SessionClose\<close> the life of a session, \<open>EncodeCall\<close>, \<open>QueryCall\<close> and
  \<open>GenerateCall\<close> the calls of the embedding model, of the retrieval query and of the
  generation service, and \<open>Print\<close> a line written to the terminal.
\<close>

datatype event =
    DriverCall "string option" "string option" "string option"
  | DriverClose
  | SessionOpen
  | SessionClose
  | EncodeCall string
  | QueryCall
  | GenerateCall "string option" string
  | Print string

record message =
  role :: string
  content :: string

record world =
  store :: graph
  log :: "event list"
  messages :: "message list"

type_synonym 'a prog = "world \<Rightarrow> (error + 'a) \<times> world"

definition ret :: "'a \<Rightarrow> 'a prog" where
  "ret x = (\<lambda>w. (Inr x, w))"

definition raise :: "error \<Rightarrow> 'a prog" where
  "raise e = (\<lambda>w. (Inl e, w))"

definition bind :: "'a prog \<Rightarrow> ('a \<Rightarrow> 'b prog) \<Rightarrow> 'b prog" where
  "bind m f = (\<lambda>w. case m w of (Inl e, w') \<Rightarrow> (Inl e, w') | (Inr x, w') \<Rightarrow> f x w')"

definition seq :: "unit prog \<Rightarrow> 'b prog \<Rightarrow> 'b prog" where
  "seq m k = bind m (\<lambda>_. k)"

definition emit :: "event \<Rightarrow> unit prog" where
  "emit ev = (\<lambda>w. (Inr (), w\<lparr>log := log w @ [ev]\<rparr>))"

text \<open>\<^verbatim>\<open>try: m finally: c\<close> where the clean-up \<open>c\<close> does not raise.\<close>

definition finally_do :: "'a prog \<Rightarrow> (world \<Rightarrow> world) \<Rightarrow> 'a prog" where
  "finally_do m c = (\<lambda>w. case m w of (r, w') \<Rightarrow> (r, c w'))"

text \<open>\<^verbatim>\<open>try: m except Exception as e: h e\<close>\<close>

definition try_except :: "'a prog \<Rightarrow> (error \<Rightarrow> 'a prog) \<Rightarrow> 'a prog" where
  "try_except m h = (\<lambda>w. case m w of (Inl e, w') \<Rightarrow> h e w' | (Inr x, w') \<Rightarrow> (Inr x, w'))"

text \<open>\<^verbatim>\<open>for x in xs: body x\<close>: an exception in the body leaves the loop.\<close>

fun for_each :: "'a list \<Rightarrow> ('a \<Rightarrow> unit prog) \<Rightarrow> unit prog" where
  "for_each [] body = ret ()"
| "for_each (x # xs) body = seq (body x) (for_each xs body)"

text \<open>
  \<^verbatim>\<open>with driver.session() as session: body\<close>: the session is released when the block is
  left, normally or by an exception.
\<close>

definition with_session :: "'a prog \<Rightarrow> 'a prog" where
  "with_session body =
     seq (emit SessionOpen) (finally_do body (\<lambda>w. w\<lparr>log := log w @ [SessionClose]\<rparr>))"

text \<open>\<^verbatim>\<open>session.run(query, params)\<close> for a write query: a failed query changes nothing.\<close>

definition run :: "(graph \<Rightarrow> error + graph) \<Rightarrow> unit prog" where
  "run q = (\<lambda>w. case q (store w) of Inl e \<Rightarrow> (Inl e, w) | Inr g \<Rightarrow> (Inr (), w\<lparr>store := g\<rparr>))"

text \<open>\<^verbatim>\<open>d[k]\<close> on a Python dictionary.\<close>

definition item :: "dict \<Rightarrow> string \<Rightarrow> val prog" where
  "item d k = (case d k of None \<Rightarrow> raise (KeyError k) | Some v \<Rightarrow> ret v)"

section \<open>The ingestion script \<^verbatim>\<open>load_data.py\<close>\<close>

text \<open>
  The five fixture lists are module globals read from JSON files; each record is a
  dictionary. The sentence-embedding model is external: \<open>enc\<close> maps the description
  value to its vector, or to \<open>None\<close> when building the document or encoding it raises.
  The store is taken to be reachable while the script runs; what can make a load raise
  is a key missing from a product record, a parameter missing from a query, a null merge
  key, or the encoder.
\<close>

record fixtures =
  products :: "dict list"
  suppliers :: "dict list"
  warehouses :: "dict list"
  routes :: "dict list"
  relationships :: "dict list"

type_synonym encoder = "val \<Rightarrow> real list option"

definition encode :: "encoder \<Rightarrow> val \<Rightarrow> real list prog" where
  "encode enc v = (case enc v of None \<Rightarrow> raise EncodeError | Some e \<Rightarrow> ret e)"

text \<open>
  One iteration of the product loop: \<^verbatim>\<open>product["description"]\<close> and \<^verbatim>\<open>product["id"]\<close>
  are read for the document, the description is encoded, the parameter dictionary is
  built key by key, and the upsert runs in a session of its own.
\<close>

definition load_product :: "encoder \<Rightarrow> dict \<Rightarrow> unit prog" where
  "load_product enc product =
     bind (item product ''description'') (\<lambda>page_content.
     bind (item product ''id'') (\<lambda>_.
     bind (encode enc page_content) (\<lambda>emb.
     bind (item product ''id'') (\<lambda>pid.
     bind (item product ''name'') (\<lambda>name.
     bind (item product ''description'') (\<lambda>description.
     bind (item product ''price'') (\<lambda>price.
     bind (item product ''category'') (\<lambda>category.
       with_session (run (q_product pid name description price category emb))))))))))"

definition load_products :: "encoder \<Rightarrow> fixtures \<Rightarrow> unit prog" where
  "load_products enc fx =
     seq (with_session (run q_create_index))
         (for_each (products fx) (load_product enc))"

definition load_suppliers :: "fixtures \<Rightarrow> unit prog" where
  "load_suppliers fx = with_session (for_each (suppliers fx) (\<lambda>supplier. run (q_supplier supplier)))"

definition load_warehouses :: "fixtures \<Rightarrow> unit prog" where
  "load_warehouses fx = with_session (for_each (warehouses fx) (\<lambda>warehouse. run (q_warehouse warehouse)))"

definition load_transportation_routes :: "fixtures \<Rightarrow> unit prog" where
  "load_transportation_routes fx = with_session (for_each (routes fx) (\<lambda>route. run (q_route route)))"

text \<open>The body of the relationship loop: two queries, one after the other.\<close>

definition relationship_step :: "dict \<Rightarrow> unit prog" where
  "relationship_step rel = seq (run (q_supplies rel)) (run (q_stored_at rel))"

definition create_relationships :: "fixtures \<Rightarrow> unit prog" where
  "create_relationships fx = with_session (for_each (relationships fx) relationship_step)"

definition load_all_data :: "encoder \<Rightarrow> fixtures \<Rightarrow> unit prog" where
  "load_all_data enc fx =
     seq (load_products enc fx)
    (seq (load_suppliers fx)
    (seq (load_warehouses fx)
    (seq (load_transportation_routes fx)
         (create_relationships fx))))"

section \<open>Vocabulary of the properties\<close>

text \<open>
  \<open>unknown_id l v g\<close>: no node labelled \<open>l\<close> in \<open>g\<close> carries the id \<open>v\<close>.
  \<open>is_node g i l v\<close>: node \<open>i\<close> of \<open>g\<close> is labelled \<open>l\<close> and carries the id \<open>v\<close>.
  \<open>has_edge g ty a b\<close>: \<open>g\<close> has a relationship of type \<open>ty\<close> from node \<open>a\<close> to node \<open>b\<close>.
\<close>

definition unknown_id :: "string \<Rightarrow> val \<Rightarrow> graph \<Rightarrow> bool" where
  "unknown_id l v g = (\<forall>n \<in> set (nodes g). has_label l n \<longrightarrow> props n ''id'' \<noteq> v)"

definition is_node :: "graph \<Rightarrow> nat \<Rightarrow> string \<Rightarrow> val \<Rightarrow> bool" where
  "is_node g i l v =
     (i < length (nodes g) \<and> has_label l (nodes g ! i) \<and> v \<noteq> VNull \<and> props (nodes g ! i) ''id'' = v)"

definition has_edge :: "graph \<Rightarrow> string \<Rightarrow> nat \<Rightarrow> nat \<Rightarrow> bool" where
  "has_edge g ty a b = (\<exists>e \<in> set (edges g). etype e = ty \<and> src e = a \<and> dst e = b)"

text \<open>The effect of one relationship merge on the graph alone, without the rows.\<close>

definition merge_edge_g :: "string \<Rightarrow> nat \<times> nat \<Rightarrow> graph \<Rightarrow> graph" where
  "merge_edge_g ty ab g =
     (if has_edge g ty (fst ab) (snd ab) then g
      else g\<lparr>edges := edges g @ [new_edge ty (fst ab) (snd ab)]\<rparr>)"

subsection \<open>A small store and fixture records used in the examples\<close>

definition demo_graph :: graph where
  "demo_graph =
     \<lparr>nodes = [new_node ''Product'' (VStr ''p1''), new_node ''Supplier'' (VStr ''s1''),
               new_node ''Warehouse'' (VStr ''w1'')],
      edges = [], indexes = []\<rparr>"

definition demo_world :: world where
  "demo_world = \<lparr>store = demo_graph, log = [], messages = []\<rparr>"

definition demo_rel :: "string \<Rightarrow> string \<Rightarrow> string \<Rightarrow> dict" where
  "demo_rel s p w =
     map_of [(''supplier_id'', VStr s), (''product_id'', VStr p), (''warehouse_id'', VStr w)]"

definition demo_route :: "string \<Rightarrow> string \<Rightarrow> dict" where
  "demo_route a b =
     map_of [(''from'', VStr a), (''to'', VStr b), (''distance'', VInt 120), (''duration'', VInt 2)]"

section \<open>The chat application \<^verbatim>\<open>app.py\<close>\<close>

text \<open>
  What the application reads from its environment, and how the services outside the
  repository behave during one run of the script: whether \<^verbatim>\<open>GraphDatabase.driver\<close>
  returns a driver, whether the store answers the retrieval query, the embedding model
  (absent when loading it failed at the start of the script), and the generation
  service.
\<close>

record config =
  uri :: "string option"
  username :: "string option"
  password :: "string option"
  api_key :: "string option"

datatype gen_outcome = GenRaises string | GenNoText | GenText string

record services =
  driver_ok :: bool
  query_ok :: bool
  embedding_model :: "encoder option"
  generate_content :: "string option \<Rightarrow> string \<Rightarrow> gen_outcome"

subsection \<open>The retrieval query\<close>

text \<open>
  Arithmetic on nullable numbers: an operand that is null makes the result null. Reading
  a list beyond its end gives null.
\<close>

definition cy_add :: "real option \<Rightarrow> real option \<Rightarrow> real option" where
  "cy_add a b = (case a of None \<Rightarrow> None | Some x \<Rightarrow> (case b of None \<Rightarrow> None | Some y \<Rightarrow> Some (x + y)))"

definition cy_mul :: "real option \<Rightarrow> real option \<Rightarrow> real option" where
  "cy_mul a b = (case a of None \<Rightarrow> None | Some x \<Rightarrow> (case b of None \<Rightarrow> None | Some y \<Rightarrow> Some (x * y)))"

definition cy_index :: "real list \<Rightarrow> nat \<Rightarrow> real option" where
  "cy_index xs i = (if i < length xs then Some (xs ! i) else None)"

text \<open>
  \<^verbatim>\<open>reduce(s = 0, i in range(0, size(e)-1) | s + e[i] * $embedding[i])\<close>; the range is
  inclusive, so it runs over the positions of the stored vector \<open>e\<close>.
\<close>

definition similarity :: "real list \<Rightarrow> real list \<Rightarrow> real option" where
  "similarity e q =
     fold (\<lambda>i s. cy_add s (cy_mul (cy_index e i) (cy_index q i))) [0..<length e] (Some 0)"

text \<open>\<^verbatim>\<open>MATCH (p:Product) WHERE p.description_embedding IS NOT NULL\<close>\<close>

definition candidates :: "graph \<Rightarrow> nat list" where
  "candidates g =
     filter (\<lambda>i. has_label ''Product'' (nodes g ! i) \<and> embedding (nodes g ! i) \<noteq> None)
       [0..<length (nodes g)]"

definition score :: "graph \<Rightarrow> real list \<Rightarrow> nat \<Rightarrow> real option" where
  "score g q i = (case embedding (nodes g ! i) of None \<Rightarrow> None | Some e \<Rightarrow> similarity e q)"

text \<open>
  \<^verbatim>\<open>ORDER BY similarity DESC\<close>: in descending order null sorts first. \<open>score_ge a b\<close>
  says that \<open>a\<close> may stand before \<open>b\<close>. The sort is an insertion sort that keeps rows of
  equal score in their incoming order.
\<close>

definition score_ge :: "real option \<Rightarrow> real option \<Rightarrow> bool" where
  "score_ge a b = (case a of None \<Rightarrow> True | Some x \<Rightarrow> (case b of None \<Rightarrow> False | Some y \<Rightarrow> y \<le> x))"

fun insert_desc :: "(nat \<Rightarrow> real option) \<Rightarrow> nat \<Rightarrow> nat list \<Rightarrow> nat list" where
  "insert_desc f x [] = [x]"
| "insert_desc f x (y # ys) = (if score_ge (f x) (f y) then x # y # ys else y # insert_desc f x ys)"

definition order_by_desc :: "(nat \<Rightarrow> real option) \<Rightarrow> nat list \<Rightarrow> nat list" where
  "order_by_desc f xs = foldr (insert_desc f) xs []"

text \<open>\<^verbatim>\<open>WITH p, ... AS similarity ORDER BY similarity DESC LIMIT 3\<close>\<close>

definition ranked :: "real list \<Rightarrow> graph \<Rightarrow> nat list" where
  "ranked q g = take 3 (order_by_desc (score g q) (candidates g))"

text \<open>
  \<^verbatim>\<open>OPTIONAL MATCH (p)<-[:SUPPLIES]-(s:Supplier)\<close> and
  \<^verbatim>\<open>OPTIONAL MATCH (p)-[:STORED_AT]->(w:Warehouse)\<close>: one row per matching relationship,
  or a single row with null when there is none.
\<close>

definition suppliers_of :: "graph \<Rightarrow> nat \<Rightarrow> nat option list" where
  "suppliers_of g p =
     (let ss = map src (filter (\<lambda>e. etype e = ''SUPPLIES'' \<and> dst e = p \<and> src e < length (nodes g)
                                   \<and> has_label ''Supplier'' (nodes g ! src e)) (edges g))
      in if ss = [] then [None] else map Some ss)"

definition warehouses_of :: "graph \<Rightarrow> nat \<Rightarrow> nat option list" where
  "warehouses_of g p =
     (let ws = map dst (filter (\<lambda>e. etype e = ''STORED_AT'' \<and> src e = p \<and> dst e < length (nodes g)
                                   \<and> has_label ''Warehouse'' (nodes g ! dst e)) (edges g))
      in if ws = [] then [None] else map Some ws)"

definition joined :: "real list \<Rightarrow> graph \<Rightarrow> (nat \<times> nat option \<times> nat option) list" where
  "joined q g =
     concat (map (\<lambda>p. concat (map (\<lambda>s. map (\<lambda>w. (p, s, w)) (warehouses_of g p)) (suppliers_of g p)))
       (ranked q g))"

text \<open>A property of a node that may be null: \<^verbatim>\<open>s.name\<close> is null when \<open>s\<close> is.\<close>

definition node_prop :: "graph \<Rightarrow> nat option \<Rightarrow> string \<Rightarrow> val" where
  "node_prop g x k = (case x of None \<Rightarrow> VNull | Some i \<Rightarrow> props (nodes g ! i) k)"

text \<open>The maps collected per product, and a record of the result.\<close>

record supplier_map =
  s_type :: string
  s_name :: val

record warehouse_map =
  w_type :: string
  w_name :: val
  w_location :: val

record row =
  product_name :: val
  product_description :: val
  suppliers_col :: "supplier_map list"
  warehouses_col :: "warehouse_map list"

text \<open>\<open>DISTINCT\<close>, keeping the first occurrence of each value.\<close>

definition firsts :: "'a list \<Rightarrow> 'a list" where
  "firsts xs = fold (\<lambda>x acc. if x \<in> set acc then acc else acc @ [x]) xs []"

text \<open>
  \<^verbatim>\<open>RETURN p.name as product_name, p.description as product_description,
  collect(DISTINCT {type: 'SUPPLIES', name: s.name}) as suppliers,
  collect(DISTINCT {type: 'STORED_AT', name: w.name, location: w.location}) as warehouses\<close>:
  the rows are grouped by the two plain columns; groups and collected values are taken
  in the order in which they first appear.
\<close>

definition group_key :: "graph \<Rightarrow> nat \<times> nat option \<times> nat option \<Rightarrow> val \<times> val" where
  "group_key g r = (props (nodes g ! fst r) ''name'', props (nodes g ! fst r) ''description'')"

definition supplier_entry :: "graph \<Rightarrow> nat \<times> nat option \<times> nat option \<Rightarrow> supplier_map" where
  "supplier_entry g r = \<lparr>s_type = ''SUPPLIES'', s_name = node_prop g (fst (snd r)) ''name''\<rparr>"

definition warehouse_entry :: "graph \<Rightarrow> nat \<times> nat option \<times> nat option \<Rightarrow> warehouse_map" where
  "warehouse_entry g r =
     \<lparr>w_type = ''STORED_AT'', w_name = node_prop g (snd (snd r)) ''name'',
      w_location = node_prop g (snd (snd r)) ''location''\<rparr>"

definition collect_group :: "graph \<Rightarrow> (nat \<times> nat option \<times> nat option) list \<Rightarrow> val \<times> val \<Rightarrow> row" where
  "collect_group g rs k =
     (let members = filter (\<lambda>r. group_key g r = k) rs in
      \<lparr>product_name = fst k, product_description = snd k,
       suppliers_col = firsts (map (supplier_entry g) members),
       warehouses_col = firsts (map (warehouse_entry g) members)\<rparr>)"

definition similarity_query :: "real list \<Rightarrow> graph \<Rightarrow> row list" where
  "similarity_query q g =
     (let rs = joined q g in map (collect_group g rs) (firsts (map (group_key g) rs)))"

subsection \<open>Formatting the context\<close>

text \<open>Python's truth value and \<^verbatim>\<open>str()\<close> of a value, as used by \<^verbatim>\<open>if x:\<close> and by f-strings.\<close>

fun truthy :: "val \<Rightarrow> bool" where
  "truthy VNull = False"
| "truthy (VStr s) = (s \<noteq> [])"
| "truthy (VInt i) = (i \<noteq> 0)"
| "truthy (VBool b) = b"

fun str_nat :: "nat \<Rightarrow> string" where
  "str_nat n = (if n < 10 then [char_of (48 + n)] else str_nat (n div 10) @ [char_of (48 + n mod 10)])"

fun py_str :: "val \<Rightarrow> string" where
  "py_str VNull = ''None''"
| "py_str (VStr s) = s"
| "py_str (VInt i) = (if i < 0 then ''-'' @ str_nat (nat (- i)) else str_nat (nat i))"
| "py_str (VBool b) = (if b then ''True'' else ''False'')"

text \<open>\<^verbatim>\<open>sep.join(xs)\<close>\<close>

fun join :: "string \<Rightarrow> string list \<Rightarrow> string" where
  "join sep [] = []"
| "join sep [x] = x"
| "join sep (x # y # ys) = x @ sep @ join sep (y # ys)"

definition newline :: string where
  "newline = [CHR 0x0A]"

text \<open>The two inner loops: a line is appended for every entry whose name is truthy.\<close>

fun append_suppliers :: "supplier_map list \<Rightarrow> string list \<Rightarrow> string list" where
  "append_suppliers [] context = context"
| "append_suppliers (supplier # rest) context =
     append_suppliers rest
       (if truthy (s_name supplier) then context @ [''Supplied by: '' @ py_str (s_name supplier)]
        else context)"

fun append_warehouses :: "warehouse_map list \<Rightarrow> string list \<Rightarrow> string list" where
  "append_warehouses [] context = context"
| "append_warehouses (warehouse # rest) context =
     append_warehouses rest
       (if truthy (w_name warehouse)
        then context @ [''Stored at: '' @ py_str (w_name warehouse) @ '' in '' @ py_str (w_location warehouse)]
        else context)"

text \<open>The body of \<^verbatim>\<open>for record in result\<close>, appending to \<^verbatim>\<open>context\<close>.\<close>

definition append_record :: "row \<Rightarrow> string list \<Rightarrow> string list" where
  "append_record record context =
     (let c1 = context @ [''Product: '' @ py_str (product_name record)];
          c2 = c1 @ [''Description: '' @ py_str (product_description record)];
          c3 = (if suppliers_col record \<noteq> [] then append_suppliers (suppliers_col record) c2 else c2);
          c4 = (if warehouses_col record \<noteq> [] then append_warehouses (warehouses_col record) c3 else c3)
      in c4 @ [''---''])"

definition format_context :: "row list \<Rightarrow> string" where
  "format_context result =
     (let context = fold append_record result []
      in if context \<noteq> [] then join newline context else ''No relevant context found.'')"

subsection \<open>\<^verbatim>\<open>get_relevant_context\<close>\<close>

definition driver_call :: "config \<Rightarrow> services \<Rightarrow> unit prog" where
  "driver_call cfg svc =
     seq (emit (DriverCall (uri cfg) (username cfg) (password cfg)))
         (if driver_ok svc then ret () else raise ServiceUnavailable)"

text \<open>\<^verbatim>\<open>embedding_model.encode(question).tolist()\<close>; the global does not exist when loading failed.\<close>

definition encode_question :: "services \<Rightarrow> string \<Rightarrow> real list prog" where
  "encode_question svc question =
     (case embedding_model svc of
        None \<Rightarrow> raise (NameError ''embedding_model'')
      | Some enc \<Rightarrow> seq (emit (EncodeCall question)) (encode enc (VStr question)))"

text \<open>\<^verbatim>\<open>session.run(..., embedding=question_embedding)\<close> and the reading of its records.\<close>

definition run_similarity_query :: "services \<Rightarrow> real list \<Rightarrow> row list prog" where
  "run_similarity_query svc q =
     seq (emit QueryCall)
         (\<lambda>w. if query_ok svc then (Inr (similarity_query q (store w)), w)
              else (Inl ServiceUnavailable, w))"

text \<open>
  The \<^verbatim>\<open>try\<close> block. When the call that creates the driver raises, the handler returns
  the error text and \<^verbatim>\<open>driver\<close> is not among the locals, so the \<^verbatim>\<open>finally\<close> clause closes
  nothing. Otherwise the session block runs under the handler and the driver is closed
  on the way out.
\<close>

definition get_relevant_context :: "services \<Rightarrow> config \<Rightarrow> string \<Rightarrow> string prog" where
  "get_relevant_context svc cfg question =
     (\<lambda>w. case driver_call cfg svc w of
        (Inl e, w1) \<Rightarrow> (Inr ''Error retrieving context.'', w1)
      | (Inr _, w1) \<Rightarrow>
          finally_do
            (try_except
               (with_session
                  (bind (encode_question svc question) (\<lambda>question_embedding.
                   bind (run_similarity_query svc question_embedding) (\<lambda>result.
                   ret (format_context result)))))
               (\<lambda>e. ret ''Error retrieving context.''))
            (\<lambda>w'. w'\<lparr>log := log w' @ [DriverClose]\<rparr>) w1)"

subsection \<open>\<^verbatim>\<open>generate_gemini_response\<close> and the chat input handler\<close>

text \<open>\<^verbatim>\<open>str.strip()\<close> on code points below 256.\<close>

definition py_isspace :: "char \<Rightarrow> bool" where
  "py_isspace c = (of_char c \<in> {9, 10, 11, 12, 13, 28, 29, 30, 31, 32, 133, 160 :: nat})"

definition strip :: "string \<Rightarrow> string" where
  "strip s = rev (dropWhile py_isspace (rev (dropWhile py_isspace s)))"

definition build_prompt :: "string \<Rightarrow> string \<Rightarrow> string" where
  "build_prompt context question =
     ''Use the following context to answer the question.'' @ newline @ newline @
     ''Context: '' @ context @ newline @ ''Question: '' @ question @ newline @ ''Answer:''"

definition generate_gemini_response :: "services \<Rightarrow> config \<Rightarrow> string \<Rightarrow> string \<Rightarrow> string prog" where
  "generate_gemini_response svc cfg context question =
     try_except
       (seq (emit (GenerateCall (api_key cfg) (build_prompt context question)))
            (case generate_content svc (api_key cfg) (build_prompt context question) of
               GenRaises m \<Rightarrow> raise (GenerationError m)
             | GenNoText \<Rightarrow> ret ''No response received from Gemini.''
             | GenText t \<Rightarrow> ret (strip t)))
       (\<lambda>e. ret ''Error generating response.'')"

definition append_message :: "string \<Rightarrow> string \<Rightarrow> unit prog" where
  "append_message r c = (\<lambda>w. (Inr (), w\<lparr>messages := messages w @ [\<lparr>role = r, content = c\<rparr>]\<rparr>))"

text \<open>
  \<^verbatim>\<open>if prompt := st.chat_input(...)\<close>: nothing happens without input; the widget gives
  \<open>None\<close> or the text that was entered. Drawing the messages on the page is not
  modelled, nor is the writing of log lines by the two functions above.
\<close>

definition chat_input_handler :: "services \<Rightarrow> config \<Rightarrow> string option \<Rightarrow> unit prog" where
  "chat_input_handler svc cfg inp =
     (case inp of
        None \<Rightarrow> ret ()
      | Some prompt \<Rightarrow>
          if prompt = [] then ret ()
          else seq (append_message ''user'' prompt)
              (bind (get_relevant_context svc cfg prompt) (\<lambda>context.
               bind (generate_gemini_response svc cfg context prompt) (\<lambda>response.
               append_message ''assistant'' response))))"

definition dot_product :: "real list \<Rightarrow> real list \<Rightarrow> real" where
  "dot_product e q = sum_list (map (\<lambda>(x, y). x * y) (zip e q))"

definition stored_dot :: "graph \<Rightarrow> real list \<Rightarrow> nat \<Rightarrow> real" where
  "stored_dot g q i = (case embedding (nodes g ! i) of None \<Rightarrow> 0 | Some e \<Rightarrow> dot_product e q)"

definition node_key :: "graph \<Rightarrow> nat \<Rightarrow> val \<times> val" where
  "node_key g p = (props (nodes g ! p) ''name'', props (nodes g ! p) ''description'')"

definition product_node :: "string \<Rightarrow> string \<Rightarrow> string \<Rightarrow> real list \<Rightarrow> node" where
  "product_node i n d e =
     \<lparr>labels = [''Product''],
      props = (\<lambda>k. VNull)(''id'' := VStr i, ''name'' := VStr n, ''description'' := VStr d),
      embedding = Some e\<rparr>"

definition shop_graph :: graph where
  "shop_graph =
     \<lparr>nodes = [product_node ''p1'' ''Headphones'' ''wireless headphones'' [1, 0],
               product_node ''p2'' ''Laptop'' ''thin laptop'' [0, 1],
               product_node ''p3'' ''Tablet'' ''small tablet'' [1/2, 1/2],
               product_node ''p4'' ''Phone'' ''smart phone'' [-1, 0],
               \<lparr>labels = [''Supplier''], props = (\<lambda>k. VNull)(''id'' := VStr ''s1'', ''name'' := VStr ''Acme''),
                embedding = None\<rparr>,
               \<lparr>labels = [''Warehouse''],
                props = (\<lambda>k. VNull)(''id'' := VStr ''w1'', ''name'' := VStr ''Depot'', ''location'' := VStr ''Berlin''),
                embedding = None\<rparr>],
      edges = [new_edge ''SUPPLIES'' 4 0, new_edge ''STORED_AT'' 0 5],
      indexes = [''product_description_embeddings'']\<rparr>"

abbreviation firsts_step :: "'a \<Rightarrow> 'a list \<Rightarrow> 'a list" where
  "firsts_step \<equiv> (\<lambda>x acc. if x \<in> set acc then acc else acc @ [x])"

definition retrieval_log :: "services \<Rightarrow> config \<Rightarrow> string \<Rightarrow> event list" where
  "retrieval_log svc cfg question =
     DriverCall (uri cfg) (username cfg) (password cfg) #
     (if driver_ok svc then
        SessionOpen #
        (case embedding_model svc of
           None \<Rightarrow> []
         | Some enc \<Rightarrow> EncodeCall question # (case enc (VStr question) of None \<Rightarrow> [] | Some emb \<Rightarrow> [QueryCall]))
        @ [SessionClose, DriverClose]
      else [])"

definition retrieval_result :: "services \<Rightarrow> string \<Rightarrow> graph \<Rightarrow> string" where
  "retrieval_result svc question g =
     (if driver_ok svc \<and> query_ok svc then
        (case embedding_model svc of
           None \<Rightarrow> ''Error retrieving context.''
         | Some enc \<Rightarrow> (case enc (VStr question) of
              None \<Rightarrow> ''Error retrieving context.''
            | Some emb \<Rightarrow> format_context (similarity_query emb g)))
      else ''Error retrieving context.'')"

definition demo_enc :: encoder where
  "demo_enc v = (case v of VStr s \<Rightarrow> Some [1, 0] | _ \<Rightarrow> None)"

definition demo_services :: services where
  "demo_services = \<lparr>driver_ok = True, query_ok = True, embedding_model = Some demo_enc,
                    generate_content = (\<lambda>k p. GenText '' Acme supplies them. '')\<rparr>"

definition demo_config :: config where
  "demo_config = \<lparr>uri = Some ''bolt://localhost:7687'', username = Some ''neo4j'',
                  password = Some ''secret'', api_key = Some ''key''\<rparr>"

subsection \<open>The context as the specification describes it\<close>

definition supplied_line :: "supplier_map \<Rightarrow> string" where
  "supplied_line s = ''Supplied by: '' @ py_str (s_name s)"

definition stored_line :: "warehouse_map \<Rightarrow> string" where
  "stored_line w = ''Stored at: '' @ py_str (w_name w) @ '' in '' @ py_str (w_location w)"

text \<open>
  The block of one record with a line for every supplier and warehouse entry whose name
  is not null, as the specification words it.
\<close>

definition claimed_block :: "row \<Rightarrow> string list" where
  "claimed_block r =
     [''Product: '' @ py_str (product_name r), ''Description: '' @ py_str (product_description r)]
     @ map supplied_line (filter (\<lambda>s. s_name s \<noteq> VNull) (suppliers_col r))
     @ map stored_line (filter (\<lambda>w. w_name w \<noteq> VNull) (warehouses_col r))
     @ [''---'']"

text \<open>
  The block of one record with a line for every supplier and warehouse entry whose name
  is truthy in Python: not null, not the empty string, not zero, not \<^verbatim>\<open>False\<close>.
\<close>

definition context_block :: "row \<Rightarrow> string list" where
  "context_block r =
     [''Product: '' @ py_str (product_name r), ''Description: '' @ py_str (product_description r)]
     @ map supplied_line (filter (\<lambda>s. truthy (s_name s)) (suppliers_col r))
     @ map stored_line (filter (\<lambda>w. truthy (w_name w)) (warehouses_col r))
     @ [''---'']"

text \<open>A record whose only supplier has the empty string as its name.\<close>

definition unnamed_supplier_row :: row where
  "unnamed_supplier_row =
     \<lparr>product_name = VStr ''Headphones'', product_description = VStr ''wireless headphones'',
      suppliers_col = [\<lparr>s_type = ''SUPPLIES'', s_name = VStr ''''\<rparr>],
      warehouses_col = [\<lparr>w_type = ''STORED_AT'', w_name = VNull, w_location = VNull\<rparr>]\<rparr>"

definition generation_result :: "services \<Rightarrow> config \<Rightarrow> string \<Rightarrow> string \<Rightarrow> string" where
  "generation_result svc cfg context question =
     (case generate_content svc (api_key cfg) (build_prompt context question) of
        GenRaises m \<Rightarrow> ''Error generating response.''
      | GenNoText \<Rightarrow> ''No response received from Gemini.''
      | GenText t \<Rightarrow> strip t)"

definition failing_generation :: services where
  "failing_generation = demo_services\<lparr>generate_content := (\<lambda>k p. GenRaises ''quota exceeded'')\<rparr>"

section \<open>The ingestion script as a whole\<close>

text \<open>
  \<^verbatim>\<open>load_json\<close>: \<open>files\<close> gives the decoded content of a path, or \<open>None\<close> when the file is
  missing or is not valid JSON.
\<close>

definition load_json :: "(string \<Rightarrow> dict list option) \<Rightarrow> string \<Rightarrow> dict list prog" where
  "load_json files file_path =
     (case files file_path of None \<Rightarrow> raise (FileError file_path) | Some rs \<Rightarrow> ret rs)"

text \<open>
  Running \<^verbatim>\<open>load_data.py\<close>: the module creates its one driver, loads the embedding model
  and reads the five fixture files; the main block then calls \<^verbatim>\<open>load_all_data()\<close> and
  \<^verbatim>\<open>driver.close()\<close>. Nothing here is inside a \<^verbatim>\<open>try\<close>.
\<close>

definition load_data_main :: "config \<Rightarrow> services \<Rightarrow> (string \<Rightarrow> dict list option) \<Rightarrow> unit prog" where
  "load_data_main cfg svc files =
     seq (driver_call cfg svc)
    (bind (case embedding_model svc of None \<Rightarrow> raise ModelLoadError | Some enc \<Rightarrow> ret enc) (\<lambda>model.
     bind (load_json files ''data/products.json'') (\<lambda>ps.
     bind (load_json files ''data/suppliers.json'') (\<lambda>ss.
     bind (load_json files ''data/warehouses.json'') (\<lambda>ws.
     bind (load_json files ''data/routes.json'') (\<lambda>rs.
     bind (load_json files ''data/relationships.json'') (\<lambda>rels.
     seq (load_all_data model
            \<lparr>products = ps, suppliers = ss, warehouses = ws, routes = rs, relationships = rels\<rparr>)
         (emit DriverClose))))))))"

text \<open>A fixture with two suppliers, and one whose only product record has no description.\<close>

definition demo_supplier :: "string \<Rightarrow> string \<Rightarrow> dict" where
  "demo_supplier i n =
     map_of [(''id'', VStr i), (''name'', VStr n), (''location'', VStr ''Lyon''),
             (''specialization'', VStr ''audio'')]"

definition demo_files :: "string \<Rightarrow> dict list option" where
  "demo_files path =
     (if path = ''data/suppliers.json'' then Some [demo_supplier ''s1'' ''Acme'', demo_supplier ''s2'' ''Bolt'']
      else Some [])"

definition broken_files :: "string \<Rightarrow> dict list option" where
  "broken_files path =
     (if path = ''data/products.json'' then Some [map_of [(''id'', VStr ''p1'')]] else Some [])"

text \<open>Programs that leave the log alone, and programs that only add closed sessions to it.\<close>

definition keeps_log :: "'a prog \<Rightarrow> bool" where
  "keeps_log m = (\<forall>w. log (snd (m w)) = log w)"

definition sessions_only :: "'a prog \<Rightarrow> bool" where
  "sessions_only m =
     (\<forall>w. \<exists>n. log (snd (m w)) = log w @ concat (replicate n [SessionOpen, SessionClose]))"

section \<open>\<^verbatim>\<open>test_gemini_connection\<close> of \<^verbatim>\<open>test_connection.py\<close>\<close>

definition check_mark :: string where
  "check_mark = [CHR 0xE2, CHR 0x9C, CHR 0x85]"

definition cross_mark :: string where
  "cross_mark = [CHR 0xE2, CHR 0x9D, CHR 0x8C]"

text \<open>
  \<^verbatim>\<open>str(e)\<close> for the two exceptions that can be raised inside the \<^verbatim>\<open>try\<close> block of the
  test; the text of the others is not modelled.
\<close>

fun error_text :: "error \<Rightarrow> string" where
  "error_text (ValueError m) = m"
| "error_text (GenerationError m) = m"
| "error_text e = []"

definition test_gemini_connection :: "services \<Rightarrow> config \<Rightarrow> unit prog" where
  "test_gemini_connection svc cfg =
     try_except
       (if api_key cfg = None \<or> api_key cfg = Some []
        then raise (ValueError ''GEMINI_API_KEY environment variable is not set'')
        else seq (emit (GenerateCall (api_key cfg) ''Hello!''))
          (case generate_content svc (api_key cfg) ''Hello!'' of
             GenRaises m \<Rightarrow> raise (GenerationError m)
           | GenNoText \<Rightarrow> emit (Print (cross_mark @ '' Gemini API connection failed: No response received''))
           | GenText t \<Rightarrow>
               seq (emit (Print (check_mark @ '' Gemini API connection successful!'')))
                   (emit (Print (''Response: '' @ strip t)))))
       (\<lambda>e. emit (Print (cross_mark @ '' Gemini API connection error: '' @ error_text e)))"

text \<open>
  An environment in which none of the four variables is set, and services that refuse
  missing credentials.
\<close>

definition unset_config :: config where
  "unset_config = \<lparr>uri = None, username = None, password = None, api_key = None\<rparr>"

definition strict_services :: services where
  "strict_services =
     \<lparr>driver_ok = False, query_ok = False, embedding_model = Some demo_enc,
      generate_content = (\<lambda>k p. (case k of None \<Rightarrow> GenRaises ''No API key was provided''
                                          | Some x \<Rightarrow> GenText ''Hello''))\<rparr>"

section \<open>The shape of a store\<close>

text \<open>
  What the merges look at is the shape of the store: for every node its labels and its
  id, for every relationship its type and its two ends. On shapes a node upsert and a
  relationship merge are the following steps.
\<close>

type_synonym shape = "(string list \<times> val) list \<times> (string \<times> nat \<times> nat) list"

definition shape_of :: "graph \<Rightarrow> shape" where
  "shape_of g = (map (\<lambda>n. (labels n, props n ''id'')) (nodes g),
                 map (\<lambda>e. (etype e, src e, dst e)) (edges g))"

datatype op = NodeOp string val | EdgeOp string string val string val | NoOp

definition sh_match :: "string \<Rightarrow> val \<Rightarrow> (string list \<times> val) list \<Rightarrow> nat list" where
  "sh_match l v ns = filter (\<lambda>i. l \<in> set (fst (ns ! i)) \<and> cy_eq (snd (ns ! i)) v) [0..<length ns]"

definition sh_edge :: "string \<Rightarrow> nat \<times> nat \<Rightarrow> (string \<times> nat \<times> nat) list \<Rightarrow> (string \<times> nat \<times> nat) list" where
  "sh_edge ty ab es = (if (ty, fst ab, snd ab) \<in> set es then es else es @ [(ty, fst ab, snd ab)])"

fun sh_step :: "op \<Rightarrow> shape \<Rightarrow> shape" where
  "sh_step (NodeOp l v) (ns, es) = (if sh_match l v ns = [] then ns @ [([l], v)] else ns, es)"
| "sh_step (EdgeOp ty la va lb vb) (ns, es) =
     (ns, fold (sh_edge ty) (List.product (sh_match la va ns) (sh_match lb vb ns)) es)"
| "sh_step NoOp s = s"

definition is_node_op :: "op \<Rightarrow> bool" where
  "is_node_op x = (case x of NodeOp l v \<Rightarrow> v \<noteq> VNull | EdgeOp ty la va lb vb \<Rightarrow> False | NoOp \<Rightarrow> True)"

definition is_edge_op :: "op \<Rightarrow> bool" where
  "is_edge_op x = (case x of NodeOp l v \<Rightarrow> False | EdgeOp ty la va lb vb \<Rightarrow> True | NoOp \<Rightarrow> True)"

text \<open>\<open>settled x s\<close>: the step \<open>x\<close> finds everything it would create already in \<open>s\<close>.\<close>

fun settled :: "op \<Rightarrow> shape \<Rightarrow> bool" where
  "settled (NodeOp l v) (ns, es) = (sh_match l v ns \<noteq> [])"
| "settled (EdgeOp ty la va lb vb) (ns, es) =
     (\<forall>ab \<in> set (List.product (sh_match la va ns) (sh_match lb vb ns)). (ty, fst ab, snd ab) \<in> set es)"
| "settled NoOp s = True"

subsection \<open>What a load does to the shape\<close>

definition valid_op :: "op \<Rightarrow> bool" where
  "valid_op x = (case x of NodeOp l v \<Rightarrow> v \<noteq> VNull | EdgeOp ty la va lb vb \<Rightarrow> True | NoOp \<Rightarrow> True)"

text \<open>
  \<open>performs m d\<close>: whenever the program \<open>m\<close> ends normally, it has taken the store through
  the steps \<open>d\<close>, and every node step of \<open>d\<close> has an id that is not null.
  \<open>same_outcome m\<close>: whether \<open>m\<close> ends normally, and with which value or error, does not
  depend on the world it starts in.
\<close>

definition performs :: "'a prog \<Rightarrow> op list \<Rightarrow> bool" where
  "performs m d =
     (\<forall>w r w'. m w = (Inr r, w') \<longrightarrow>
        shape_of (store w') = fold sh_step d (shape_of (store w)) \<and> (\<forall>x \<in> set d. valid_op x))"

definition same_outcome :: "'a prog \<Rightarrow> bool" where
  "same_outcome m = (\<forall>w w'. fst (m w) = fst (m w'))"

definition outcome :: "error + graph \<Rightarrow> error + unit" where
  "outcome r = (case r of Inl e \<Rightarrow> Inl e | Inr g \<Rightarrow> Inr ())"

definition node_plan :: "fixtures \<Rightarrow> op list" where
  "node_plan fx =
     NoOp # map (\<lambda>p. NodeOp ''Product'' (arg p ''id'')) (products fx)
     @ map (\<lambda>s. NodeOp ''Supplier'' (arg s ''id'')) (suppliers fx)
     @ map (\<lambda>w. NodeOp ''Warehouse'' (arg w ''id'')) (warehouses fx)"

definition edge_plan :: "fixtures \<Rightarrow> op list" where
  "edge_plan fx =
     map (\<lambda>r. EdgeOp ''CONNECTED_TO'' ''Warehouse'' (arg r ''from'') ''Warehouse'' (arg r ''to'')) (routes fx)
     @ concat (map (\<lambda>r. [EdgeOp ''SUPPLIES'' ''Supplier'' (arg r ''supplier_id'') ''Product'' (arg r ''product_id''),
                          EdgeOp ''STORED_AT'' ''Product'' (arg r ''product_id'') ''Warehouse'' (arg r ''warehouse_id'')])
               (relationships fx))"

text \<open>A fixture with a repeated product id, an unknown supplier and a route.\<close>

definition demo_product :: "string \<Rightarrow> string \<Rightarrow> dict" where
  "demo_product i n =
     map_of [(''id'', VStr i), (''name'', VStr n), (''description'', VStr ''wireless headphones''),
             (''price'', VInt 99), (''category'', VStr ''audio'')]"

definition demo_warehouse :: "string \<Rightarrow> dict" where
  "demo_warehouse i =
     map_of [(''id'', VStr i), (''name'', VStr ''Depot''), (''location'', VStr ''Berlin''),
             (''capacity'', VInt 500)]"

definition demo_fixtures :: fixtures where
  "demo_fixtures =
     \<lparr>products = [demo_product ''p1'' ''Headphones'', demo_product ''p1'' ''Headset'',
                  demo_product ''p2'' ''Speaker''],
      suppliers = [demo_supplier ''s1'' ''Acme'', demo_supplier ''s2'' ''Bolt''],
      warehouses = [demo_warehouse ''w1'', demo_warehouse ''w2''],
      routes = [demo_route ''w1'' ''w2''],
      relationships = [demo_rel ''s1'' ''p1'' ''w1'', demo_rel ''s9'' ''p2'' ''w2'']\<rparr>"

section \<open>Properties of the relationship queries\<close>

lemma product_Nil_right: "List.product xs [] = []"
  by (induction xs) auto

lemma unknown_no_match: "unknown_id l v g \<Longrightarrow> match_nodes l v g = []"
  by (auto simp: unknown_id_def match_nodes_def filter_empty_conv cy_eq_def)

lemma merge_edges_Nil: "merge_edges ty [] g = (g, [])"
  by (simp add: merge_edges_def)

lemma need_present: "\<forall>k \<in> set ks. d k \<noteq> None \<Longrightarrow> need ks d = None"
  by (induction ks) (auto split: option.splits)

lemma q_supplies_noop:
  assumes "d ''supplier_id'' \<noteq> None" "d ''product_id'' \<noteq> None"
    and "unknown_id ''Supplier'' (arg d ''supplier_id'') g \<or> unknown_id ''Product'' (arg d ''product_id'') g"
  shows "q_supplies d g = Inr g"
  using assms by (auto simp: q_supplies_def need_present unknown_no_match merge_edges_Nil product_Nil_right)

lemma q_stored_at_noop:
  assumes "d ''product_id'' \<noteq> None" "d ''warehouse_id'' \<noteq> None"
    and "unknown_id ''Product'' (arg d ''product_id'') g \<or> unknown_id ''Warehouse'' (arg d ''warehouse_id'') g"
  shows "q_stored_at d g = Inr g"
  using assms by (auto simp: q_stored_at_def need_present unknown_no_match merge_edges_Nil product_Nil_right)

lemma set_edge_Nil: "set_edge f [] g = g"
  by (simp add: set_edge_def)

lemma q_route_noop:
  assumes "d ''from'' \<noteq> None" "d ''to'' \<noteq> None" "d ''distance'' \<noteq> None" "d ''duration'' \<noteq> None"
    and "unknown_id ''Warehouse'' (arg d ''from'') g \<or> unknown_id ''Warehouse'' (arg d ''to'') g"
  shows "q_route d g = Inr g"
  using assms by (auto simp: q_route_def need_present unknown_no_match merge_edges_Nil product_Nil_right set_edge_Nil)

lemma run_noop: "q (store w) = Inr (store w) \<Longrightarrow> run q w = (Inr (), w)"
  by (simp add: run_def)

lemma match_nodes_iff: "i \<in> set (match_nodes l v g) \<longleftrightarrow> is_node g i l v"
  by (auto simp: match_nodes_def is_node_def cy_eq_def)

lemma match_edges_empty: "match_edges ty a b g = [] \<longleftrightarrow> \<not> has_edge g ty a b"
proof -
  have "match_edges ty a b g = [] \<longleftrightarrow>
        (\<forall>j < length (edges g). \<not> (etype (edges g ! j) = ty \<and> src (edges g ! j) = a \<and> dst (edges g ! j) = b))"
    by (auto simp: match_edges_def filter_empty_conv)
  also have "\<dots> \<longleftrightarrow> (\<forall>e \<in> set (edges g). \<not> (etype e = ty \<and> src e = a \<and> dst e = b))"
    by (simp add: all_set_conv_all_nth)
  finally show ?thesis by (auto simp: has_edge_def)
qed

lemma fst_merge_edge: "fst (merge_edge ty ab st) = merge_edge_g ty ab (fst st)"
  by (simp add: merge_edge_def merge_edge_g_def Let_def match_edges_empty)

lemma fst_fold_merge_edge:
  "fst (fold (merge_edge ty) pairs st) = fold (merge_edge_g ty) pairs (fst st)"
  by (induction pairs arbitrary: st) (simp_all add: fst_merge_edge)

lemma fst_merge_edges: "fst (merge_edges ty pairs g) = fold (merge_edge_g ty) pairs g"
  by (simp add: merge_edges_def fst_fold_merge_edge)

lemma merge_edge_g_nodes [simp]: "nodes (merge_edge_g ty ab g) = nodes g"
  by (simp add: merge_edge_g_def)

lemma merge_edge_g_indexes [simp]: "indexes (merge_edge_g ty ab g) = indexes g"
  by (simp add: merge_edge_g_def)

lemma has_edge_merge_edge_g_mono: "has_edge g t a b \<Longrightarrow> has_edge (merge_edge_g ty ab g) t a b"
  by (auto simp: merge_edge_g_def has_edge_def)

lemma has_edge_merge_edge_g_self: "has_edge (merge_edge_g ty ab g) ty (fst ab) (snd ab)"
  by (auto simp: merge_edge_g_def has_edge_def new_edge_def)

lemma fold_merge_edge_g_nodes [simp]: "nodes (fold (merge_edge_g ty) pairs g) = nodes g"
  by (induction pairs arbitrary: g) simp_all

lemma fold_merge_edge_g_indexes [simp]: "indexes (fold (merge_edge_g ty) pairs g) = indexes g"
  by (induction pairs arbitrary: g) simp_all

lemma fold_merge_edge_g_mono:
  "has_edge g t a b \<Longrightarrow> has_edge (fold (merge_edge_g ty) pairs g) t a b"
  by (induction pairs arbitrary: g) (simp_all add: has_edge_merge_edge_g_mono)

lemma fold_merge_edge_g_covers:
  "ab \<in> set pairs \<Longrightarrow> has_edge (fold (merge_edge_g ty) pairs g) ty (fst ab) (snd ab)"
proof (induction pairs arbitrary: g)
  case Nil
  then show ?case by simp
next
  case (Cons p ps)
  show ?case
  proof (cases "ab = p")
    case True
    then show ?thesis
      by (simp add: fold_merge_edge_g_mono has_edge_merge_edge_g_self)
  next
    case False
    with Cons show ?thesis by simp
  qed
qed

lemma fold_merge_edge_g_covered:
  "\<forall>ab \<in> set pairs. has_edge g ty (fst ab) (snd ab) \<Longrightarrow> fold (merge_edge_g ty) pairs g = g"
  by (induction pairs) (simp_all add: merge_edge_g_def)

lemma merge_edge_g_other:
  "t \<noteq> ty \<Longrightarrow> filter (\<lambda>e. etype e = t) (edges (merge_edge_g ty ab g)) = filter (\<lambda>e. etype e = t) (edges g)"
  by (simp add: merge_edge_g_def new_edge_def)

lemma fold_merge_edge_g_other:
  "t \<noteq> ty \<Longrightarrow> filter (\<lambda>e. etype e = t) (edges (fold (merge_edge_g ty) pairs g)) = filter (\<lambda>e. etype e = t) (edges g)"
  by (induction pairs arbitrary: g) (simp_all add: merge_edge_g_other)

lemma q_stored_at_creates:
  assumes "d ''product_id'' \<noteq> None" "d ''warehouse_id'' \<noteq> None"
    and "is_node g i ''Product'' (arg d ''product_id'')"
    and "is_node g j ''Warehouse'' (arg d ''warehouse_id'')"
  shows "\<exists>h. q_stored_at d g = Inr h \<and> has_edge h ''STORED_AT'' i j
           \<and> nodes h = nodes g
           \<and> filter (\<lambda>e. etype e = ''SUPPLIES'') (edges h) = filter (\<lambda>e. etype e = ''SUPPLIES'') (edges g)"
proof -
  let ?pairs = "List.product (match_nodes ''Product'' (arg d ''product_id'') g)
                  (match_nodes ''Warehouse'' (arg d ''warehouse_id'') g)"
  have "(i, j) \<in> set ?pairs" using assms(3,4) by (simp add: match_nodes_iff)
  then have "has_edge (fold (merge_edge_g ''STORED_AT'') ?pairs g) ''STORED_AT'' i j"
    using fold_merge_edge_g_covers[of "(i, j)" ?pairs] by simp
  moreover have "need [''product_id'', ''warehouse_id''] d = None"
    using assms(1,2) by auto
  ultimately show ?thesis
    by (simp add: q_stored_at_def fst_merge_edges fold_merge_edge_g_other)
qed

lemma q_supplies_creates:
  assumes "d ''supplier_id'' \<noteq> None" "d ''product_id'' \<noteq> None"
    and "is_node g i ''Supplier'' (arg d ''supplier_id'')"
    and "is_node g j ''Product'' (arg d ''product_id'')"
  shows "\<exists>h. q_supplies d g = Inr h \<and> has_edge h ''SUPPLIES'' i j
           \<and> nodes h = nodes g
           \<and> filter (\<lambda>e. etype e = ''STORED_AT'') (edges h) = filter (\<lambda>e. etype e = ''STORED_AT'') (edges g)"
proof -
  let ?pairs = "List.product (match_nodes ''Supplier'' (arg d ''supplier_id'') g)
                  (match_nodes ''Product'' (arg d ''product_id'') g)"
  have "(i, j) \<in> set ?pairs" using assms(3,4) by (simp add: match_nodes_iff)
  then have "has_edge (fold (merge_edge_g ''SUPPLIES'') ?pairs g) ''SUPPLIES'' i j"
    using fold_merge_edge_g_covers[of "(i, j)" ?pairs] by simp
  moreover have "need [''supplier_id'', ''product_id''] d = None"
    using assms(1,2) by auto
  ultimately show ?thesis
    by (simp add: q_supplies_def fst_merge_edges fold_merge_edge_g_other)
qed

lemma for_each_noop:
  "\<forall>x \<in> set xs. body x w = (Inr (), w) \<Longrightarrow> for_each xs body w = (Inr (), w)"
  by (induction xs) (simp_all add: ret_def seq_def bind_def)

lemma with_session_noop:
  "body (w\<lparr>log := log w @ [SessionOpen]\<rparr>) = (Inr (), w\<lparr>log := log w @ [SessionOpen]\<rparr>)
   \<Longrightarrow> with_session body w = (Inr (), w\<lparr>log := log w @ [SessionOpen, SessionClose]\<rparr>)"
  by (simp add: with_session_def seq_def bind_def emit_def finally_do_def)

lemma run_ok: "q (store w) = Inr h \<Longrightarrow> run q w = (Inr (), w\<lparr>store := h\<rparr>)"
  by (simp add: run_def)

text \<open>
  Claim C6. A relationship or route record that names a supplier, product or warehouse id
  carried by no node of the store makes the affected merge match no rows: the query
  returns normally and leaves the world as it was, so no relationship is created and
  nothing is raised. The loops do not look at what a query created: a fixture whose
  records all name an unknown product (or an unknown origin warehouse) runs to its
  normal end with the store unchanged.
\<close>

theorem missing_endpoint_is_silent_noop:
  "(rel ''supplier_id'' \<noteq> None \<and> rel ''product_id'' \<noteq> None \<and>
      (unknown_id ''Supplier'' (arg rel ''supplier_id'') (store w) \<or>
       unknown_id ''Product'' (arg rel ''product_id'') (store w))
      \<longrightarrow> run (q_supplies rel) w = (Inr (), w)) \<and>
   (rel ''product_id'' \<noteq> None \<and> rel ''warehouse_id'' \<noteq> None \<and>
      (unknown_id ''Product'' (arg rel ''product_id'') (store w) \<or>
       unknown_id ''Warehouse'' (arg rel ''warehouse_id'') (store w))
      \<longrightarrow> run (q_stored_at rel) w = (Inr (), w)) \<and>
   (route ''from'' \<noteq> None \<and> route ''to'' \<noteq> None \<and> route ''distance'' \<noteq> None \<and>
      route ''duration'' \<noteq> None \<and>
      (unknown_id ''Warehouse'' (arg route ''from'') (store w) \<or>
       unknown_id ''Warehouse'' (arg route ''to'') (store w))
      \<longrightarrow> run (q_route route) w = (Inr (), w)) \<and>
   ((\<forall>r \<in> set (relationships fx). r ''supplier_id'' \<noteq> None \<and> r ''product_id'' \<noteq> None \<and>
        r ''warehouse_id'' \<noteq> None \<and> unknown_id ''Product'' (arg r ''product_id'') (store w))
      \<longrightarrow> create_relationships fx w = (Inr (), w\<lparr>log := log w @ [SessionOpen, SessionClose]\<rparr>)) \<and>
   ((\<forall>r \<in> set (routes fx). r ''from'' \<noteq> None \<and> r ''to'' \<noteq> None \<and> r ''distance'' \<noteq> None \<and>
        r ''duration'' \<noteq> None \<and> unknown_id ''Warehouse'' (arg r ''from'') (store w))
      \<longrightarrow> load_transportation_routes fx w = (Inr (), w\<lparr>log := log w @ [SessionOpen, SessionClose]\<rparr>))"
proof (intro conjI impI)
  assume "rel ''supplier_id'' \<noteq> None \<and> rel ''product_id'' \<noteq> None \<and>
      (unknown_id ''Supplier'' (arg rel ''supplier_id'') (store w) \<or>
       unknown_id ''Product'' (arg rel ''product_id'') (store w))"
  then show "run (q_supplies rel) w = (Inr (), w)"
    by (intro run_noop q_supplies_noop) simp_all
next
  assume "rel ''product_id'' \<noteq> None \<and> rel ''warehouse_id'' \<noteq> None \<and>
      (unknown_id ''Product'' (arg rel ''product_id'') (store w) \<or>
       unknown_id ''Warehouse'' (arg rel ''warehouse_id'') (store w))"
  then show "run (q_stored_at rel) w = (Inr (), w)"
    by (intro run_noop q_stored_at_noop) simp_all
next
  assume "route ''from'' \<noteq> None \<and> route ''to'' \<noteq> None \<and> route ''distance'' \<noteq> None \<and>
      route ''duration'' \<noteq> None \<and>
      (unknown_id ''Warehouse'' (arg route ''from'') (store w) \<or>
       unknown_id ''Warehouse'' (arg route ''to'') (store w))"
  then show "run (q_route route) w = (Inr (), w)"
    by (intro run_noop q_route_noop) simp_all
next
  let ?w = "w\<lparr>log := log w @ [SessionOpen]\<rparr>"
  assume a: "\<forall>r \<in> set (relationships fx). r ''supplier_id'' \<noteq> None \<and> r ''product_id'' \<noteq> None \<and>
        r ''warehouse_id'' \<noteq> None \<and> unknown_id ''Product'' (arg r ''product_id'') (store w)"
  have "\<forall>r \<in> set (relationships fx). relationship_step r ?w = (Inr (), ?w)"
  proof
    fix r assume "r \<in> set (relationships fx)"
    with a have k: "r ''supplier_id'' \<noteq> None" "r ''product_id'' \<noteq> None" "r ''warehouse_id'' \<noteq> None"
      and u: "unknown_id ''Product'' (arg r ''product_id'') (store ?w)" by simp_all
    have "run (q_supplies r) ?w = (Inr (), ?w)" "run (q_stored_at r) ?w = (Inr (), ?w)"
      using k u by (intro run_noop q_supplies_noop q_stored_at_noop; simp)+
    then show "relationship_step r ?w = (Inr (), ?w)"
      by (simp add: relationship_step_def seq_def bind_def)
  qed
  then show "create_relationships fx w = (Inr (), w\<lparr>log := log w @ [SessionOpen, SessionClose]\<rparr>)"
    unfolding create_relationships_def by (intro with_session_noop for_each_noop)
next
  let ?w = "w\<lparr>log := log w @ [SessionOpen]\<rparr>"
  assume a: "\<forall>r \<in> set (routes fx). r ''from'' \<noteq> None \<and> r ''to'' \<noteq> None \<and> r ''distance'' \<noteq> None \<and>
        r ''duration'' \<noteq> None \<and> unknown_id ''Warehouse'' (arg r ''from'') (store w)"
  have "\<forall>r \<in> set (routes fx). run (q_route r) ?w = (Inr (), ?w)"
  proof
    fix r assume "r \<in> set (routes fx)"
    with a show "run (q_route r) ?w = (Inr (), ?w)"
      by (intro run_noop q_route_noop; simp)
  qed
  then show "load_transportation_routes fx w = (Inr (), w\<lparr>log := log w @ [SessionOpen, SessionClose]\<rparr>)"
    unfolding load_transportation_routes_def by (intro with_session_noop for_each_noop)
qed

lemma demo_unknown:
  "unknown_id ''Supplier'' (VStr ''s9'') demo_graph"
  "unknown_id ''Product'' (VStr ''p9'') demo_graph"
  "unknown_id ''Warehouse'' (VStr ''w9'') demo_graph"
  by (simp_all add: unknown_id_def demo_graph_def has_label_def new_node_def)

theorem missing_endpoint_is_silent_noop_witness:
  "run (q_supplies (demo_rel ''s9'' ''p1'' ''w1'')) demo_world = (Inr (), demo_world) \<and>
   run (q_stored_at (demo_rel ''s1'' ''p1'' ''w9'')) demo_world = (Inr (), demo_world) \<and>
   run (q_route (demo_route ''w1'' ''w9'')) demo_world = (Inr (), demo_world) \<and>
   create_relationships \<lparr>products = [], suppliers = [], warehouses = [], routes = [],
       relationships = [demo_rel ''s1'' ''p9'' ''w1'']\<rparr> demo_world
     = (Inr (), demo_world\<lparr>log := [SessionOpen, SessionClose]\<rparr>) \<and>
   load_transportation_routes \<lparr>products = [], suppliers = [], warehouses = [],
       routes = [demo_route ''w9'' ''w1''], relationships = []\<rparr> demo_world
     = (Inr (), demo_world\<lparr>log := [SessionOpen, SessionClose]\<rparr>)"
  using missing_endpoint_is_silent_noop [of "demo_rel ''s9'' ''p1'' ''w1''" demo_world "demo_route ''w1'' ''w9''"
          "\<lparr>products = [], suppliers = [], warehouses = [], routes = [],
       relationships = [demo_rel ''s1'' ''p9'' ''w1'']\<rparr>"]
    missing_endpoint_is_silent_noop [of "demo_rel ''s1'' ''p1'' ''w9''" demo_world "demo_route ''w1'' ''w9''"
      "\<lparr>products = [], suppliers = [], warehouses = [],
       routes = [demo_route ''w9'' ''w1''], relationships = []\<rparr>"]
    demo_unknown
  by (simp add: demo_rel_def demo_route_def arg_def demo_world_def)

text \<open>
  Claim C10. The two merges of one relationship record are separate queries. When the
  supplier is unknown while the product and the warehouse exist, the record still
  leaves a STORED_AT relationship from the product to the warehouse and adds no
  SUPPLIES relationship; when only the warehouse is unknown, it leaves the SUPPLIES
  relationship and adds no STORED_AT relationship. On the example store a record
  produces zero, one or two relationships.
\<close>

theorem supplies_and_stored_at_are_independent:
  assumes "rel ''supplier_id'' \<noteq> None" and "rel ''product_id'' \<noteq> None"
    and "rel ''warehouse_id'' \<noteq> None"
  shows
  "(unknown_id ''Supplier'' (arg rel ''supplier_id'') (store w) \<and>
    is_node (store w) p ''Product'' (arg rel ''product_id'') \<and>
    is_node (store w) wh ''Warehouse'' (arg rel ''warehouse_id'')
    \<longrightarrow> (\<exists>w'. relationship_step rel w = (Inr (), w') \<and>
              has_edge (store w') ''STORED_AT'' p wh \<and>
              filter (\<lambda>e. etype e = ''SUPPLIES'') (edges (store w')) =
              filter (\<lambda>e. etype e = ''SUPPLIES'') (edges (store w)))) \<and>
   (unknown_id ''Warehouse'' (arg rel ''warehouse_id'') (store w) \<and>
    is_node (store w) s ''Supplier'' (arg rel ''supplier_id'') \<and>
    is_node (store w) p ''Product'' (arg rel ''product_id'')
    \<longrightarrow> (\<exists>w'. relationship_step rel w = (Inr (), w') \<and>
              has_edge (store w') ''SUPPLIES'' s p \<and>
              filter (\<lambda>e. etype e = ''STORED_AT'') (edges (store w')) =
              filter (\<lambda>e. etype e = ''STORED_AT'') (edges (store w)))) \<and>
   length (edges (store (snd (relationship_step (demo_rel ''s1'' ''p9'' ''w1'') demo_world)))) = 0 \<and>
   length (edges (store (snd (relationship_step (demo_rel ''s9'' ''p1'' ''w1'') demo_world)))) = 1 \<and>
   length (edges (store (snd (relationship_step (demo_rel ''s1'' ''p1'' ''w9'') demo_world)))) = 1 \<and>
   length (edges (store (snd (relationship_step (demo_rel ''s1'' ''p1'' ''w1'') demo_world)))) = 2"
proof (intro conjI impI)
  assume a: "unknown_id ''Supplier'' (arg rel ''supplier_id'') (store w) \<and>
    is_node (store w) p ''Product'' (arg rel ''product_id'') \<and>
    is_node (store w) wh ''Warehouse'' (arg rel ''warehouse_id'')"
  have 1: "run (q_supplies rel) w = (Inr (), w)"
    using assms a by (intro run_noop q_supplies_noop) simp_all
  obtain h where h: "q_stored_at rel (store w) = Inr h" "has_edge h ''STORED_AT'' p wh"
    "filter (\<lambda>e. etype e = ''SUPPLIES'') (edges h) = filter (\<lambda>e. etype e = ''SUPPLIES'') (edges (store w))"
    using q_stored_at_creates[OF assms(2,3), of "store w" p wh] a by blast
  have "relationship_step rel w = (Inr (), w\<lparr>store := h\<rparr>)"
    using 1 run_ok[of "q_stored_at rel" w h] h(1) by (simp add: relationship_step_def seq_def bind_def)
  with h(2,3) show "\<exists>w'. relationship_step rel w = (Inr (), w') \<and>
              has_edge (store w') ''STORED_AT'' p wh \<and>
              filter (\<lambda>e. etype e = ''SUPPLIES'') (edges (store w')) =
              filter (\<lambda>e. etype e = ''SUPPLIES'') (edges (store w))"
    by simp
next
  assume a: "unknown_id ''Warehouse'' (arg rel ''warehouse_id'') (store w) \<and>
    is_node (store w) s ''Supplier'' (arg rel ''supplier_id'') \<and>
    is_node (store w) p ''Product'' (arg rel ''product_id'')"
  obtain h where h: "q_supplies rel (store w) = Inr h" "has_edge h ''SUPPLIES'' s p"
    "nodes h = nodes (store w)"
    "filter (\<lambda>e. etype e = ''STORED_AT'') (edges h) = filter (\<lambda>e. etype e = ''STORED_AT'') (edges (store w))"
    using q_supplies_creates[OF assms(1,2), of "store w" s p] a by blast
  have "unknown_id ''Warehouse'' (arg rel ''warehouse_id'') h"
    using a h(3) by (simp add: unknown_id_def)
  then have 2: "run (q_stored_at rel) (w\<lparr>store := h\<rparr>) = (Inr (), w\<lparr>store := h\<rparr>)"
    using assms by (intro run_noop q_stored_at_noop) simp_all
  have "relationship_step rel w = (Inr (), w\<lparr>store := h\<rparr>)"
    using 2 run_ok[of "q_supplies rel" w h] h(1) by (simp add: relationship_step_def seq_def bind_def)
  with h(2,4) show "\<exists>w'. relationship_step rel w = (Inr (), w') \<and>
              has_edge (store w') ''SUPPLIES'' s p \<and>
              filter (\<lambda>e. etype e = ''STORED_AT'') (edges (store w')) =
              filter (\<lambda>e. etype e = ''STORED_AT'') (edges (store w))"
    by simp
next
  show "length (edges (store (snd (relationship_step (demo_rel ''s1'' ''p9'' ''w1'') demo_world)))) = 0"
    by code_simp
next
  show "length (edges (store (snd (relationship_step (demo_rel ''s9'' ''p1'' ''w1'') demo_world)))) = 1"
    by code_simp
next
  show "length (edges (store (snd (relationship_step (demo_rel ''s1'' ''p1'' ''w9'') demo_world)))) = 1"
    by code_simp
next
  show "length (edges (store (snd (relationship_step (demo_rel ''s1'' ''p1'' ''w1'') demo_world)))) = 2"
    by code_simp
qed

theorem supplies_and_stored_at_are_independent_witness:
  "\<exists>w'. relationship_step (demo_rel ''s9'' ''p1'' ''w1'') demo_world = (Inr (), w') \<and>
              has_edge (store w') ''STORED_AT'' 0 2 \<and>
              filter (\<lambda>e. etype e = ''SUPPLIES'') (edges (store w')) = []"
  using supplies_and_stored_at_are_independent [of "demo_rel ''s9'' ''p1'' ''w1''" demo_world 0 2 1]
    demo_unknown
  by (simp add: demo_rel_def arg_def demo_world_def is_node_def demo_graph_def new_node_def has_label_def)

section \<open>Properties of retrieval\<close>

lemma score_ge_total: "score_ge a b \<or> score_ge b a"
  by (auto simp: score_ge_def split: option.splits)

lemma score_ge_trans: "score_ge a b \<Longrightarrow> score_ge b c \<Longrightarrow> score_ge a c"
  by (auto simp: score_ge_def split: option.splits)

lemma set_insert_desc: "set (insert_desc f x ys) = insert x (set ys)"
  by (induction ys) auto

lemma set_order_by_desc: "set (order_by_desc f xs) = set xs"
  by (induction xs) (simp_all add: order_by_desc_def set_insert_desc)

lemma length_insert_desc: "length (insert_desc f x ys) = Suc (length ys)"
  by (induction ys) auto

lemma length_order_by_desc: "length (order_by_desc f xs) = length xs"
  by (induction xs) (simp_all add: order_by_desc_def length_insert_desc)

lemma distinct_insert_desc: "distinct ys \<Longrightarrow> x \<notin> set ys \<Longrightarrow> distinct (insert_desc f x ys)"
  by (induction ys) (auto simp: set_insert_desc)

lemma distinct_order_by_desc: "distinct xs \<Longrightarrow> distinct (order_by_desc f xs)"
proof (induction xs)
  case Nil
  then show ?case by (simp add: order_by_desc_def)
next
  case (Cons x xs)
  then have "distinct (order_by_desc f xs)" "x \<notin> set (order_by_desc f xs)"
    by (simp_all add: set_order_by_desc)
  then have "distinct (insert_desc f x (order_by_desc f xs))"
    by (rule distinct_insert_desc)
  then show ?case by (simp add: order_by_desc_def)
qed

lemma sorted_insert_desc:
  assumes "sorted_wrt (\<lambda>i j. score_ge (f i) (f j)) ys"
  shows "sorted_wrt (\<lambda>i j. score_ge (f i) (f j)) (insert_desc f x ys)"
  using assms
proof (induction ys)
  case Nil
  then show ?case by simp
next
  case (Cons y ys)
  show ?case
  proof (cases "score_ge (f x) (f y)")
    case True
    with Cons.prems show ?thesis
      by (auto intro: score_ge_trans)
  next
    case False
    then have "score_ge (f y) (f x)" using score_ge_total by blast
    with False Cons show ?thesis
      by (auto simp: set_insert_desc)
  qed
qed

lemma sorted_order_by_desc: "sorted_wrt (\<lambda>i j. score_ge (f i) (f j)) (order_by_desc f xs)"
proof (induction xs)
  case Nil
  then show ?case by (simp add: order_by_desc_def)
next
  case (Cons x xs)
  then have "sorted_wrt (\<lambda>i j. score_ge (f i) (f j)) (insert_desc f x (order_by_desc f xs))"
    by (rule sorted_insert_desc)
  then show ?case by (simp add: order_by_desc_def)
qed

lemma take_dominates_rest:
  assumes "sorted_wrt R xs" and "i \<in> set (take k xs)" and "j \<in> set xs" and "j \<notin> set (take k xs)"
  shows "R i j"
proof -
  have "set xs = set (take k xs) \<union> set (drop k xs)"
    by (metis append_take_drop_id set_append)
  with assms(3,4) have "j \<in> set (drop k xs)" by blast
  moreover have "\<forall>a \<in> set (take k xs). \<forall>b \<in> set (drop k xs). R a b"
    using assms(1) sorted_wrt_append[of R "take k xs" "drop k xs"] by simp
  ultimately show ?thesis using assms(2) by blast
qed

lemma similarity_prefix:
  assumes "n \<le> length e" and "n \<le> length q"
  shows "fold (\<lambda>i s. cy_add s (cy_mul (cy_index e i) (cy_index q i))) [0..<n] (Some a)
         = Some (a + dot_product (take n e) (take n q))"
  using assms
proof (induction n)
  case 0
  then show ?case by (simp add: dot_product_def)
next
  case (Suc n)
  then have n: "n < length e" "n < length q" by simp_all
  have z: "zip (take (Suc n) e) (take (Suc n) q) = zip (take n e) (take n q) @ [(e ! n, q ! n)]"
    using n by (simp add: take_Suc_conv_app_nth)
  show ?case
    using Suc n by (simp add: z dot_product_def cy_add_def cy_mul_def cy_index_def)
qed

lemma similarity_dot:
  assumes "length e \<le> length q"
  shows "similarity e q = Some (dot_product e q)"
proof -
  have "zip e (take (length e) q) = zip e q"
    by (metis order_refl take_all take_zip length_zip min.absorb1 assms)
  then show ?thesis
    using similarity_prefix[of "length e" e q 0] assms by (simp add: similarity_def dot_product_def)
qed

lemma candidates_iff:
  "i \<in> set (candidates g) \<longleftrightarrow>
     i < length (nodes g) \<and> has_label ''Product'' (nodes g ! i) \<and> embedding (nodes g ! i) \<noteq> None"
  by (auto simp: candidates_def)

lemma ranked_subset: "set (ranked q g) \<subseteq> set (candidates g)"
  using set_take_subset[of 3 "order_by_desc (score g q) (candidates g)"]
  by (simp add: ranked_def set_order_by_desc)

lemma sorted_ranked: "sorted_wrt (\<lambda>i j. score_ge (score g q i) (score g q j)) (ranked q g)"
  unfolding ranked_def by (intro sorted_wrt_take sorted_order_by_desc)

lemma length_ranked: "length (ranked q g) = min 3 (length (candidates g))"
  by (simp add: ranked_def length_order_by_desc min.commute)

lemma distinct_ranked: "distinct (ranked q g)"
  unfolding ranked_def by (intro distinct_take distinct_order_by_desc) (simp add: candidates_def)

lemma fold_firsts_absorb: "set ys \<subseteq> set acc \<Longrightarrow> fold firsts_step ys acc = acc"
  by (induction ys) auto

lemma fold_firsts_length: "length (fold firsts_step xs acc) \<le> length acc + length xs"
proof (induction xs arbitrary: acc)
  case Nil
  then show ?case by simp
next
  case (Cons x xs)
  have "length (fold firsts_step xs (firsts_step x acc)) \<le> length (firsts_step x acc) + length xs"
    by (rule Cons.IH)
  also have "\<dots> \<le> length acc + length (x # xs)" by simp
  finally show ?case by simp
qed

lemma length_firsts: "length (firsts xs) \<le> length xs"
  using fold_firsts_length[of xs "[]"] by (simp add: firsts_def)

lemma fold_firsts_constant_block:
  assumes "ys \<noteq> []" and "\<forall>y \<in> set ys. y = k"
  shows "fold firsts_step ys acc = firsts_step k acc"
proof -
  obtain y ys' where ys: "ys = y # ys'" using assms(1) by (cases ys) auto
  with assms(2) have y: "y = k" and r: "set ys' \<subseteq> {k}" by auto
  have "set ys' \<subseteq> set (firsts_step k acc)" using r by auto
  then have "fold firsts_step ys' (firsts_step k acc) = firsts_step k acc"
    by (rule fold_firsts_absorb)
  then show ?thesis by (simp add: ys y)
qed

lemma fold_firsts_blocks:
  assumes "\<forall>p \<in> set ps. blk p \<noteq> [] \<and> (\<forall>y \<in> set (blk p). y = k p)"
  shows "fold firsts_step (concat (map blk ps)) acc = fold firsts_step (map k ps) acc"
  using assms
proof (induction ps arbitrary: acc)
  case Nil
  then show ?case by simp
next
  case (Cons p ps)
  then have "fold firsts_step (blk p) acc = firsts_step (k p) acc"
    by (intro fold_firsts_constant_block) simp_all
  with Cons show ?case by simp
qed

lemma suppliers_of_nonempty: "suppliers_of g p \<noteq> []"
  by (simp add: suppliers_of_def Let_def)

lemma warehouses_of_nonempty: "warehouses_of g p \<noteq> []"
  by (simp add: warehouses_of_def Let_def)

lemma joined_keys: "firsts (map (group_key g) (joined q g)) = firsts (map (node_key g) (ranked q g))"
proof -
  let ?blk = "\<lambda>p. map (group_key g)
     (concat (map (\<lambda>s. map (\<lambda>w. (p, s, w)) (warehouses_of g p)) (suppliers_of g p)))"
  have m: "map (group_key g) (joined q g) = concat (map ?blk (ranked q g))"
    by (simp add: joined_def map_concat comp_def)
  have "\<forall>p \<in> set (ranked q g). ?blk p \<noteq> [] \<and> (\<forall>y \<in> set (?blk p). y = node_key g p)"
  proof
    fix p
    obtain s ss where s: "suppliers_of g p = s # ss"
      using suppliers_of_nonempty[of g p] by (cases "suppliers_of g p") auto
    obtain w ws where w: "warehouses_of g p = w # ws"
      using warehouses_of_nonempty[of g p] by (cases "warehouses_of g p") auto
    show "?blk p \<noteq> [] \<and> (\<forall>y \<in> set (?blk p). y = node_key g p)"
      by (auto simp: s w group_key_def node_key_def)
  qed
  then show ?thesis
    unfolding firsts_def m by (rule fold_firsts_blocks)
qed

lemma similarity_query_keys:
  "map (\<lambda>r. (product_name r, product_description r)) (similarity_query q g)
     = firsts (map (node_key g) (ranked q g))"
  by (simp add: similarity_query_def Let_def collect_group_def comp_def joined_keys)

lemma length_similarity_query: "length (similarity_query q g) \<le> length (ranked q g)"
proof -
  have "length (similarity_query q g) = length (firsts (map (node_key g) (ranked q g)))"
    by (metis similarity_query_keys length_map)
  also have "\<dots> \<le> length (ranked q g)"
    using length_firsts[of "map (node_key g) (ranked q g)"] by simp
  finally show ?thesis .
qed

text \<open>
  Claim C1. The ranking stage of the retrieval query keeps only Product nodes whose
  embedding is not null, scores a node by the dot product of its stored vector with the
  question vector (for a stored vector no longer than the question vector; beyond that
  the query language gives null), orders the nodes by descending score and keeps at most
  three: the kept nodes are pairwise different, stand in descending order, and every
  candidate left out scores no higher than any kept one. When the stored vectors have
  the length of the question vector, the order is the descending order of the plain dot
  products. The query returns at most three records, one per distinct name and
  description among the kept nodes, in that order.
\<close>

theorem top3_by_descending_dot_product:
  "length (ranked q g) = min 3 (length (candidates g)) \<and>
   length (similarity_query q g) \<le> 3 \<and>
   distinct (ranked q g) \<and>
   (\<forall>i \<in> set (ranked q g).
      i < length (nodes g) \<and> has_label ''Product'' (nodes g ! i) \<and> embedding (nodes g ! i) \<noteq> None) \<and>
   (\<forall>i e. embedding (nodes g ! i) = Some e \<and> length e \<le> length q
      \<longrightarrow> score g q i = Some (dot_product e q)) \<and>
   sorted_wrt (\<lambda>i j. score_ge (score g q i) (score g q j)) (ranked q g) \<and>
   (\<forall>i \<in> set (ranked q g). \<forall>j \<in> set (candidates g).
      j \<notin> set (ranked q g) \<longrightarrow> score_ge (score g q i) (score g q j)) \<and>
   ((\<forall>i \<in> set (candidates g). \<forall>e. embedding (nodes g ! i) = Some e \<longrightarrow> length e = length q)
      \<longrightarrow> sorted_wrt (\<lambda>i j. stored_dot g q j \<le> stored_dot g q i) (ranked q g) \<and>
          (\<forall>i \<in> set (ranked q g). \<forall>j \<in> set (candidates g).
             j \<notin> set (ranked q g) \<longrightarrow> stored_dot g q j \<le> stored_dot g q i)) \<and>
   map (\<lambda>r. (product_name r, product_description r)) (similarity_query q g)
     = firsts (map (node_key g) (ranked q g))"
proof (intro conjI)
  show "length (ranked q g) = min 3 (length (candidates g))" by (rule length_ranked)
  show "length (similarity_query q g) \<le> 3"
    using length_similarity_query[of q g] length_ranked[of q g] by simp
  show "distinct (ranked q g)" by (rule distinct_ranked)
  show "\<forall>i \<in> set (ranked q g).
      i < length (nodes g) \<and> has_label ''Product'' (nodes g ! i) \<and> embedding (nodes g ! i) \<noteq> None"
    using ranked_subset[of q g] candidates_iff[of _ g] by blast
  show "\<forall>i e. embedding (nodes g ! i) = Some e \<and> length e \<le> length q
      \<longrightarrow> score g q i = Some (dot_product e q)"
    by (simp add: score_def similarity_dot)
  show "sorted_wrt (\<lambda>i j. score_ge (score g q i) (score g q j)) (ranked q g)"
    by (rule sorted_ranked)
  show top: "\<forall>i \<in> set (ranked q g). \<forall>j \<in> set (candidates g).
      j \<notin> set (ranked q g) \<longrightarrow> score_ge (score g q i) (score g q j)"
    unfolding ranked_def
    using take_dominates_rest[OF sorted_order_by_desc, of _ 3 "score g q" "candidates g"]
    by (simp add: set_order_by_desc)
  show "(\<forall>i \<in> set (candidates g). \<forall>e. embedding (nodes g ! i) = Some e \<longrightarrow> length e = length q)
      \<longrightarrow> sorted_wrt (\<lambda>i j. stored_dot g q j \<le> stored_dot g q i) (ranked q g) \<and>
          (\<forall>i \<in> set (ranked q g). \<forall>j \<in> set (candidates g).
             j \<notin> set (ranked q g) \<longrightarrow> stored_dot g q j \<le> stored_dot g q i)"
  proof
    assume dims: "\<forall>i \<in> set (candidates g). \<forall>e. embedding (nodes g ! i) = Some e \<longrightarrow> length e = length q"
    have sc: "score g q i = Some (stored_dot g q i)" if "i \<in> set (candidates g)" for i
    proof -
      from that obtain e where e: "embedding (nodes g ! i) = Some e"
        by (auto simp: candidates_iff)
      with dims that have "length e = length q" by blast
      with e show ?thesis by (simp add: score_def stored_dot_def similarity_dot)
    qed
    have ge: "stored_dot g q j \<le> stored_dot g q i"
      if "score_ge (score g q i) (score g q j)" "i \<in> set (candidates g)" "j \<in> set (candidates g)" for i j
      using that by (simp add: sc score_ge_def)
    have "sorted_wrt (\<lambda>i j. stored_dot g q j \<le> stored_dot g q i) (ranked q g)"
      using sorted_ranked[of g q] ranked_subset[of q g]
      by (auto intro!: sorted_wrt_mono_rel[where P = "\<lambda>i j. score_ge (score g q i) (score g q j)"] ge)
    moreover have "\<forall>i \<in> set (ranked q g). \<forall>j \<in> set (candidates g).
             j \<notin> set (ranked q g) \<longrightarrow> stored_dot g q j \<le> stored_dot g q i"
      using top ranked_subset[of q g] ge by blast
    ultimately show "sorted_wrt (\<lambda>i j. stored_dot g q j \<le> stored_dot g q i) (ranked q g) \<and>
          (\<forall>i \<in> set (ranked q g). \<forall>j \<in> set (candidates g).
             j \<notin> set (ranked q g) \<longrightarrow> stored_dot g q j \<le> stored_dot g q i)" by blast
  qed
  show "map (\<lambda>r. (product_name r, product_description r)) (similarity_query q g)
     = firsts (map (node_key g) (ranked q g))"
    by (rule similarity_query_keys)
qed

lemma shop_candidates: "candidates shop_graph = [0, 1, 2, 3]"
  by code_simp

lemma shop_ranked: "ranked [1, 0] shop_graph = [0, 2, 1]"
  by code_simp

lemma get_relevant_context_eq:
  "get_relevant_context svc cfg question w =
     (Inr (retrieval_result svc question (store w)),
      w\<lparr>log := log w @ retrieval_log svc cfg question\<rparr>)"
  by (simp add: get_relevant_context_def driver_call_def seq_def bind_def emit_def ret_def raise_def
      finally_do_def try_except_def with_session_def encode_question_def encode_def
      run_similarity_query_def retrieval_log_def retrieval_result_def
      split: option.splits)

lemma no_candidates: 
  assumes "\<forall>n \<in> set (nodes g). has_label ''Product'' n \<longrightarrow> embedding n = None"
  shows "candidates g = []"
  using assms by (auto simp: candidates_def filter_empty_conv)

lemma similarity_query_empty: "candidates g = [] \<Longrightarrow> similarity_query q g = []"
  by (simp add: similarity_query_def ranked_def order_by_desc_def joined_def firsts_def)

text \<open>
  Claim C2. When no Product node of the store has an embedding, and the driver, the
  embedding model and the query all work, \<^verbatim>\<open>get_relevant_context\<close> returns exactly
  \<^verbatim>\<open>No relevant context found.\<close>
\<close>

theorem no_embeddings_sentinel:
  assumes "\<forall>n \<in> set (nodes (store w)). has_label ''Product'' n \<longrightarrow> embedding n = None"
    and "driver_ok svc" and "query_ok svc"
    and "embedding_model svc = Some enc" and "enc (VStr question) = Some emb"
  shows "fst (get_relevant_context svc cfg question w) = Inr ''No relevant context found.''"
  using assms
  by (simp add: get_relevant_context_eq retrieval_result_def similarity_query_empty no_candidates
      format_context_def)

text \<open>
  Claim C3. \<^verbatim>\<open>get_relevant_context\<close> always returns a string and never raises. When the
  driver cannot be created, the store does not answer the query, the embedding model is
  missing because loading it failed, or encoding the question raises, the string is
  \<^verbatim>\<open>Error retrieving context.\<close>
\<close>

theorem get_relevant_context_never_raises:
  "(\<exists>s. fst (get_relevant_context svc cfg question w) = Inr s) \<and>
   (\<not> driver_ok svc \<or> \<not> query_ok svc \<or> embedding_model svc = None \<or>
    (\<exists>enc. embedding_model svc = Some enc \<and> enc (VStr question) = None)
    \<longrightarrow> fst (get_relevant_context svc cfg question w) = Inr ''Error retrieving context.'')"
  by (auto simp: get_relevant_context_eq retrieval_result_def split: option.splits)

text \<open>
  On the example store the question vector \<open>[1, 0]\<close> ranks the headphones, the tablet
  and the laptop, in this order, and leaves the phone out.
\<close>

theorem top3_by_descending_dot_product_witness:
  "ranked [1, 0] shop_graph = [0, 2, 1] \<and>
   sorted_wrt (\<lambda>i j. stored_dot shop_graph [1, 0] j \<le> stored_dot shop_graph [1, 0] i)
     (ranked [1, 0] shop_graph) \<and>
   length (similarity_query [1, 0] shop_graph) \<le> 3"
proof -
  have dims: "\<forall>i \<in> set (candidates shop_graph). \<forall>e.
      embedding (nodes shop_graph ! i) = Some e \<longrightarrow> length e = length [1, 0 :: real]"
    by (simp add: shop_candidates) (simp add: shop_graph_def product_node_def)
  show ?thesis
    using top3_by_descending_dot_product [of "[1, 0]" shop_graph] dims shop_ranked by blast
qed

theorem no_embeddings_sentinel_witness:
  "fst (get_relevant_context demo_services demo_config ''Where are the laptops stored?'' demo_world)
     = Inr ''No relevant context found.''"
  using no_embeddings_sentinel [of demo_world demo_services demo_enc
          "''Where are the laptops stored?''" "[1, 0]" demo_config]
  by (simp add: demo_world_def demo_graph_def new_node_def demo_services_def demo_enc_def)

theorem get_relevant_context_never_raises_witness:
  "fst (get_relevant_context (demo_services\<lparr>embedding_model := None\<rparr>) demo_config
          ''Where are the laptops stored?'' demo_world) = Inr ''Error retrieving context.''"
  using get_relevant_context_never_raises [of "demo_services\<lparr>embedding_model := None\<rparr>" demo_config
          "''Where are the laptops stored?''" demo_world]
  by simp

section \<open>Properties of the context text and of the chat turn\<close>

lemma append_suppliers_eq:
  "append_suppliers ss ctx = ctx @ map supplied_line (filter (\<lambda>s. truthy (s_name s)) ss)"
  by (induction ss arbitrary: ctx) (simp_all add: supplied_line_def)

lemma append_warehouses_eq:
  "append_warehouses ws ctx = ctx @ map stored_line (filter (\<lambda>w. truthy (w_name w)) ws)"
  by (induction ws arbitrary: ctx) (simp_all add: stored_line_def)

lemma append_record_eq: "append_record r ctx = ctx @ context_block r"
  by (simp add: append_record_def context_block_def Let_def append_suppliers_eq append_warehouses_eq)

lemma fold_append_record: "fold append_record rows ctx = ctx @ concat (map context_block rows)"
  by (induction rows arbitrary: ctx) (simp_all add: append_record_eq)

lemma concat_blocks_nonempty: "rows \<noteq> [] \<Longrightarrow> concat (map context_block rows) \<noteq> []"
  by (cases rows) (simp_all add: context_block_def)

text \<open>
  Claim C4, as amended. For a non-empty result the context is the blocks of the records
  joined by newlines, in the order of the result; the block of a record is its
  \<^verbatim>\<open>Product:\<close> line, its \<^verbatim>\<open>Description:\<close> line, a \<^verbatim>\<open>Supplied by:\<close> line for every supplier
  entry whose name is truthy, a \<^verbatim>\<open>Stored at:\<close> line for every warehouse entry whose name
  is truthy, and the separator line.
\<close>

theorem context_is_blocks_in_result_order:
  assumes "result \<noteq> []"
  shows "format_context result = join newline (concat (map context_block result))"
  using concat_blocks_nonempty[OF assms] by (simp add: format_context_def fold_append_record)

text \<open>
  On the example store the question vector \<open>[1, 0]\<close> gives three blocks; the first names
  the supplier and the warehouse of the headphones.
\<close>

theorem context_is_blocks_in_result_order_witness:
  "format_context (similarity_query [1, 0] shop_graph) =
     join newline
       [''Product: Headphones'', ''Description: wireless headphones'', ''Supplied by: Acme'',
        ''Stored at: Depot in Berlin'', ''---'',
        ''Product: Tablet'', ''Description: small tablet'', ''---'',
        ''Product: Laptop'', ''Description: thin laptop'', ''---'']"
proof -
  have ne: "similarity_query [1, 0] shop_graph \<noteq> []" by code_simp
  have "concat (map context_block (similarity_query [1, 0] shop_graph)) =
       [''Product: Headphones'', ''Description: wireless headphones'', ''Supplied by: Acme'',
        ''Stored at: Depot in Berlin'', ''---'',
        ''Product: Tablet'', ''Description: small tablet'', ''---'',
        ''Product: Laptop'', ''Description: thin laptop'', ''---'']" by code_simp
  then show ?thesis
    using context_is_blocks_in_result_order [OF ne] by simp
qed

text \<open>
  The claim as the specification words it fails on a record whose supplier has an empty
  name: the entry is not null, yet no \<^verbatim>\<open>Supplied by:\<close> line is written for it.
\<close>

theorem unnamed_supplier_has_no_line:
  "format_context [unnamed_supplier_row] \<noteq> join newline (concat (map claimed_block [unnamed_supplier_row]))"
  by code_simp

lemma generate_gemini_response_eq:
  "generate_gemini_response svc cfg context question w =
     (Inr (generation_result svc cfg context question),
      w\<lparr>log := log w @ [GenerateCall (api_key cfg) (build_prompt context question)]\<rparr>)"
  by (simp add: generate_gemini_response_def generation_result_def try_except_def seq_def bind_def
      emit_def ret_def raise_def split: gen_outcome.splits)

lemma chat_input_handler_eq:
  assumes "prompt \<noteq> []"
  shows "chat_input_handler svc cfg (Some prompt) w =
     (Inr (),
      w\<lparr>messages := messages w @
           [\<lparr>role = ''user'', content = prompt\<rparr>,
            \<lparr>role = ''assistant'',
             content = generation_result svc cfg (retrieval_result svc prompt (store w)) prompt\<rparr>],
        log := log w @ retrieval_log svc cfg prompt @
           [GenerateCall (api_key cfg) (build_prompt (retrieval_result svc prompt (store w)) prompt)]\<rparr>)"
  using assms
  by (simp add: chat_input_handler_def seq_def bind_def append_message_def get_relevant_context_eq
      generate_gemini_response_eq)

text \<open>
  Claim C7. A chat turn (a non-empty input) ends normally and leaves the history as it
  was with two entries appended, the user's prompt and then the assistant's response.
  The context is the value returned by \<^verbatim>\<open>get_relevant_context\<close>, whose calls stand in the
  log before the single call of the generation service, and that call carries the
  context in its prompt. When the generation call raises, the assistant's entry is
  \<^verbatim>\<open>Error generating response.\<close>
\<close>

theorem chat_turn_appends_user_then_assistant:
  assumes "prompt \<noteq> []"
  shows "\<exists>context response w'.
     chat_input_handler svc cfg (Some prompt) w = (Inr (), w') \<and>
     messages w' = messages w @ [\<lparr>role = ''user'', content = prompt\<rparr>,
                                 \<lparr>role = ''assistant'', content = response\<rparr>] \<and>
     fst (get_relevant_context svc cfg prompt
            (w\<lparr>messages := messages w @ [\<lparr>role = ''user'', content = prompt\<rparr>]\<rparr>)) = Inr context \<and>
     log w' = log (snd (get_relevant_context svc cfg prompt
                     (w\<lparr>messages := messages w @ [\<lparr>role = ''user'', content = prompt\<rparr>]\<rparr>)))
              @ [GenerateCall (api_key cfg) (build_prompt context prompt)] \<and>
     store w' = store w \<and>
     ((\<exists>m. generate_content svc (api_key cfg) (build_prompt context prompt) = GenRaises m)
        \<longrightarrow> response = ''Error generating response.'')"
proof (intro exI conjI)
  show "chat_input_handler svc cfg (Some prompt) w =
     (Inr (),
      w\<lparr>messages := messages w @
           [\<lparr>role = ''user'', content = prompt\<rparr>,
            \<lparr>role = ''assistant'',
             content = generation_result svc cfg (retrieval_result svc prompt (store w)) prompt\<rparr>],
        log := log w @ retrieval_log svc cfg prompt @
           [GenerateCall (api_key cfg) (build_prompt (retrieval_result svc prompt (store w)) prompt)]\<rparr>)"
    by (rule chat_input_handler_eq[OF assms])
  show "(\<exists>m. generate_content svc (api_key cfg) (build_prompt (retrieval_result svc prompt (store w)) prompt) = GenRaises m)
        \<longrightarrow> generation_result svc cfg (retrieval_result svc prompt (store w)) prompt = ''Error generating response.''"
    by (auto simp: generation_result_def)
qed (simp_all add: get_relevant_context_eq)

theorem chat_turn_appends_user_then_assistant_witness:
  "\<exists>w'. chat_input_handler failing_generation demo_config (Some ''Where are the laptops stored?'') demo_world
           = (Inr (), w') \<and>
         messages w' = [\<lparr>role = ''user'', content = ''Where are the laptops stored?''\<rparr>,
                        \<lparr>role = ''assistant'', content = ''Error generating response.''\<rparr>]"
proof -
  have ne: "''Where are the laptops stored?'' \<noteq> []" by simp
  have r: "generate_content failing_generation k p = GenRaises ''quota exceeded''" for k p
    by (simp add: failing_generation_def)
  have m: "messages demo_world = []" by (simp add: demo_world_def)
  from chat_turn_appends_user_then_assistant [OF ne, of failing_generation demo_config demo_world]
  show ?thesis unfolding r m by auto
qed

section \<open>Properties of connection handling and configuration\<close>

lemma keeps_log_ret: "keeps_log (ret x)"
  by (simp add: keeps_log_def ret_def)

lemma keeps_log_raise: "keeps_log (raise e)"
  by (simp add: keeps_log_def raise_def)

lemma keeps_log_run: "keeps_log (run q)"
  by (simp add: keeps_log_def run_def split: sum.splits)

lemma keeps_log_item: "keeps_log (item d k)"
  by (simp add: item_def keeps_log_ret keeps_log_raise split: option.splits)

lemma keeps_log_encode: "keeps_log (encode enc v)"
  by (simp add: encode_def keeps_log_ret keeps_log_raise split: option.splits)

lemma keeps_log_bind:
  assumes "keeps_log m" and "\<And>x. keeps_log (f x)"
  shows "keeps_log (bind m f)"
  unfolding keeps_log_def
proof
  fix w
  obtain r w1 where m: "m w = (r, w1)" by (cases "m w")
  with assms(1) have l: "log w1 = log w" by (metis keeps_log_def snd_conv)
  show "log (snd (bind m f w)) = log w"
  proof (cases r)
    case (Inl e)
    with m l show ?thesis by (simp add: bind_def)
  next
    case (Inr x)
    with m l assms(2)[of x] show ?thesis by (simp add: bind_def keeps_log_def)
  qed
qed

lemma keeps_log_seq: "keeps_log m \<Longrightarrow> keeps_log k \<Longrightarrow> keeps_log (seq m k)"
  by (simp add: seq_def keeps_log_bind)

lemma keeps_log_for_each: "(\<And>x. keeps_log (body x)) \<Longrightarrow> keeps_log (for_each xs body)"
  by (induction xs) (simp_all add: keeps_log_ret keeps_log_seq)

lemma keeps_log_sessions_only: "keeps_log m \<Longrightarrow> sessions_only m"
proof -
  assume k: "keeps_log m"
  have "log (snd (m w)) = log w @ concat (replicate 0 [SessionOpen, SessionClose])" for w
    using k by (simp add: keeps_log_def)
  then show ?thesis unfolding sessions_only_def by blast
qed

lemma with_session_log:
  assumes "keeps_log body"
  shows "log (snd (with_session body w)) = log w @ [SessionOpen, SessionClose]"
proof -
  let ?w = "w\<lparr>log := log w @ [SessionOpen]\<rparr>"
  obtain r w1 where b: "body ?w = (r, w1)" by (cases "body ?w")
  with assms have "log w1 = log ?w" by (metis keeps_log_def snd_conv)
  with b show ?thesis
    by (simp add: with_session_def seq_def bind_def emit_def finally_do_def)
qed

lemma sessions_only_with_session: "keeps_log body \<Longrightarrow> sessions_only (with_session body)"
proof -
  assume k: "keeps_log body"
  have "log (snd (with_session body w)) = log w @ concat (replicate 1 [SessionOpen, SessionClose])" for w
    using with_session_log[OF k, of w] by simp
  then show ?thesis unfolding sessions_only_def by blast
qed

lemma sessions_only_bind:
  assumes "sessions_only m" and "\<And>x. sessions_only (f x)"
  shows "sessions_only (bind m f)"
  unfolding sessions_only_def
proof
  fix w
  obtain r w1 where m: "m w = (r, w1)" by (cases "m w")
  from assms(1) obtain n where n: "log w1 = log w @ concat (replicate n [SessionOpen, SessionClose])"
    unfolding sessions_only_def using m by (metis snd_conv)
  show "\<exists>k. log (snd (bind m f w)) = log w @ concat (replicate k [SessionOpen, SessionClose])"
  proof (cases r)
    case (Inl e)
    with m n show ?thesis by (auto simp: bind_def)
  next
    case (Inr x)
    from assms(2)[of x] obtain k where
      "log (snd (f x w1)) = log w1 @ concat (replicate k [SessionOpen, SessionClose])"
      unfolding sessions_only_def by blast
    with n have "log (snd (f x w1)) = log w @ concat (replicate (n + k) [SessionOpen, SessionClose])"
      by (simp add: replicate_add)
    with m Inr show ?thesis by (auto simp: bind_def)
  qed
qed

lemma sessions_only_seq: "sessions_only m \<Longrightarrow> sessions_only k \<Longrightarrow> sessions_only (seq m k)"
  by (simp add: seq_def sessions_only_bind)

lemma sessions_only_for_each: "(\<And>x. sessions_only (body x)) \<Longrightarrow> sessions_only (for_each xs body)"
  by (induction xs) (simp_all add: sessions_only_seq keeps_log_sessions_only keeps_log_ret)

lemma sessions_only_load_product: "sessions_only (load_product enc p)"
  unfolding load_product_def
  by (intro sessions_only_bind sessions_only_with_session keeps_log_sessions_only keeps_log_item
      keeps_log_encode keeps_log_run)

lemma sessions_only_load_products: "sessions_only (load_products enc fx)"
  unfolding load_products_def
  by (intro sessions_only_seq sessions_only_with_session sessions_only_for_each
      sessions_only_load_product keeps_log_run)

lemma sessions_only_load_suppliers: "sessions_only (load_suppliers fx)"
  unfolding load_suppliers_def
  by (intro sessions_only_with_session keeps_log_for_each keeps_log_run)

lemma sessions_only_load_warehouses: "sessions_only (load_warehouses fx)"
  unfolding load_warehouses_def
  by (intro sessions_only_with_session keeps_log_for_each keeps_log_run)

lemma sessions_only_load_routes: "sessions_only (load_transportation_routes fx)"
  unfolding load_transportation_routes_def
  by (intro sessions_only_with_session keeps_log_for_each keeps_log_run)

lemma sessions_only_create_relationships: "sessions_only (create_relationships fx)"
  unfolding create_relationships_def relationship_step_def
  by (intro sessions_only_with_session keeps_log_for_each keeps_log_seq keeps_log_run)

lemma sessions_only_load_all_data: "sessions_only (load_all_data enc fx)"
  unfolding load_all_data_def
  by (intro sessions_only_seq sessions_only_load_products sessions_only_load_suppliers
      sessions_only_load_warehouses sessions_only_load_routes sessions_only_create_relationships)

lemma load_data_main_success:
  assumes "fst (load_data_main cfg svc files w) = Inr ()"
  shows "\<exists>n. log (snd (load_data_main cfg svc files w)) =
           log w @ [DriverCall (uri cfg) (username cfg) (password cfg)]
           @ concat (replicate n [SessionOpen, SessionClose]) @ [DriverClose]"
proof -
  let ?w1 = "w\<lparr>log := log w @ [DriverCall (uri cfg) (username cfg) (password cfg)]\<rparr>"
  from assms obtain enc ps ss ws rs rels where
    ok: "driver_ok svc" "embedding_model svc = Some enc"
        "files ''data/products.json'' = Some ps" "files ''data/suppliers.json'' = Some ss"
        "files ''data/warehouses.json'' = Some ws" "files ''data/routes.json'' = Some rs"
        "files ''data/relationships.json'' = Some rels"
    by (auto simp: load_data_main_def driver_call_def load_json_def seq_def bind_def emit_def ret_def
        raise_def split: option.splits if_splits)
  let ?fx = "\<lparr>products = ps, suppliers = ss, warehouses = ws, routes = rs, relationships = rels\<rparr>"
  have m: "load_data_main cfg svc files w = seq (load_all_data enc ?fx) (emit DriverClose) ?w1"
    using ok
    by (simp add: load_data_main_def driver_call_def load_json_def seq_def bind_def emit_def ret_def)
  obtain r w2 where l: "load_all_data enc ?fx ?w1 = (r, w2)" by (cases "load_all_data enc ?fx ?w1")
  from sessions_only_load_all_data[of enc ?fx] obtain n where
    n: "log w2 = log ?w1 @ concat (replicate n [SessionOpen, SessionClose])"
    unfolding sessions_only_def using l by (metis snd_conv)
  from assms m l have "r = Inr ()"
    by (cases r) (simp_all add: seq_def bind_def emit_def)
  with m l n show ?thesis
    by (auto simp: seq_def bind_def emit_def)
qed

text \<open>
  Claim C8, as amended. A call of \<^verbatim>\<open>get_relevant_context\<close> creates a driver of its own;
  when it gets one it opens one session, and on every path out of the function the
  session and then the driver are closed. Each operation of the ingestion script opens
  sessions of its own and closes every one of them on every path out, normal or
  exceptional, and touches no driver: the script creates a single driver for all its
  operations and closes it at the end of a load that succeeded.
\<close>

theorem connection_scopes:
  "(\<exists>calls. set calls \<subseteq> {EncodeCall question, QueryCall} \<and>
      log (snd (get_relevant_context svc cfg question w)) =
        log w @ DriverCall (uri cfg) (username cfg) (password cfg) #
          (if driver_ok svc then SessionOpen # calls @ [SessionClose, DriverClose] else [])) \<and>
   (\<exists>n. log (snd (load_products enc fx w)) = log w @ concat (replicate n [SessionOpen, SessionClose])) \<and>
   log (snd (load_suppliers fx w)) = log w @ [SessionOpen, SessionClose] \<and>
   log (snd (load_warehouses fx w)) = log w @ [SessionOpen, SessionClose] \<and>
   log (snd (load_transportation_routes fx w)) = log w @ [SessionOpen, SessionClose] \<and>
   log (snd (create_relationships fx w)) = log w @ [SessionOpen, SessionClose] \<and>
   (\<exists>n. log (snd (load_all_data enc fx w)) = log w @ concat (replicate n [SessionOpen, SessionClose])) \<and>
   (fst (load_data_main cfg svc files w) = Inr () \<longrightarrow>
      (\<exists>n. log (snd (load_data_main cfg svc files w)) =
           log w @ [DriverCall (uri cfg) (username cfg) (password cfg)]
           @ concat (replicate n [SessionOpen, SessionClose]) @ [DriverClose]))"
proof (intro conjI impI)
  let ?calls = "case embedding_model svc of None \<Rightarrow> []
     | Some enc \<Rightarrow> EncodeCall question # (case enc (VStr question) of None \<Rightarrow> [] | Some emb \<Rightarrow> [QueryCall])"
  have "set ?calls \<subseteq> {EncodeCall question, QueryCall}"
    by (auto split: option.splits)
  moreover have "log (snd (get_relevant_context svc cfg question w)) =
        log w @ DriverCall (uri cfg) (username cfg) (password cfg) #
          (if driver_ok svc then SessionOpen # ?calls @ [SessionClose, DriverClose] else [])"
    by (simp add: get_relevant_context_eq retrieval_log_def)
  ultimately show "\<exists>calls. set calls \<subseteq> {EncodeCall question, QueryCall} \<and>
      log (snd (get_relevant_context svc cfg question w)) =
        log w @ DriverCall (uri cfg) (username cfg) (password cfg) #
          (if driver_ok svc then SessionOpen # calls @ [SessionClose, DriverClose] else [])"
    by blast
next
  show "\<exists>n. log (snd (load_products enc fx w)) = log w @ concat (replicate n [SessionOpen, SessionClose])"
    using sessions_only_load_products[of enc fx] unfolding sessions_only_def by blast
next
  show "log (snd (load_suppliers fx w)) = log w @ [SessionOpen, SessionClose]"
    unfolding load_suppliers_def by (intro with_session_log keeps_log_for_each keeps_log_run)
next
  show "log (snd (load_warehouses fx w)) = log w @ [SessionOpen, SessionClose]"
    unfolding load_warehouses_def by (intro with_session_log keeps_log_for_each keeps_log_run)
next
  show "log (snd (load_transportation_routes fx w)) = log w @ [SessionOpen, SessionClose]"
    unfolding load_transportation_routes_def by (intro with_session_log keeps_log_for_each keeps_log_run)
next
  show "log (snd (create_relationships fx w)) = log w @ [SessionOpen, SessionClose]"
    unfolding create_relationships_def relationship_step_def
    by (intro with_session_log keeps_log_for_each keeps_log_seq keeps_log_run)
next
  show "\<exists>n. log (snd (load_all_data enc fx w)) = log w @ concat (replicate n [SessionOpen, SessionClose])"
    using sessions_only_load_all_data[of enc fx] unfolding sessions_only_def by blast
next
  assume "fst (load_data_main cfg svc files w) = Inr ()"
  then show "\<exists>n. log (snd (load_data_main cfg svc files w)) =
           log w @ [DriverCall (uri cfg) (username cfg) (password cfg)]
           @ concat (replicate n [SessionOpen, SessionClose]) @ [DriverClose]"
    by (rule load_data_main_success)
qed

lemma demo_load_succeeds: "fst (load_data_main demo_config demo_services demo_files demo_world) = Inr ()"
  by code_simp

theorem connection_scopes_witness:
  "\<exists>n. log (snd (load_data_main demo_config demo_services demo_files demo_world)) =
       [DriverCall (Some ''bolt://localhost:7687'') (Some ''neo4j'') (Some ''secret'')]
       @ concat (replicate n [SessionOpen, SessionClose]) @ [DriverClose]"
  using connection_scopes [of "''q''" demo_services demo_config demo_world demo_enc
      "\<lparr>products = [], suppliers = [], warehouses = [], routes = [], relationships = []\<rparr>" demo_files]
    demo_load_succeeds
  by (simp add: demo_config_def demo_world_def)

text \<open>
  The claim as the specification words it fails on the ingestion script. Loading two
  suppliers opens a session and no driver; the whole run makes one driver call for its
  five sessions; and when a product record has no description the run ends with a
  \<^verbatim>\<open>KeyError\<close> and the driver is never closed.
\<close>

theorem ingestion_shares_one_driver:
  "log (snd (load_suppliers \<lparr>products = [], suppliers = [demo_supplier ''s1'' ''Acme'', demo_supplier ''s2'' ''Bolt''],
                              warehouses = [], routes = [], relationships = []\<rparr> demo_world))
     = [SessionOpen, SessionClose] \<and>
   log (snd (load_data_main demo_config demo_services demo_files demo_world))
     = [DriverCall (Some ''bolt://localhost:7687'') (Some ''neo4j'') (Some ''secret''),
        SessionOpen, SessionClose, SessionOpen, SessionClose, SessionOpen, SessionClose,
        SessionOpen, SessionClose, SessionOpen, SessionClose, DriverClose] \<and>
   fst (load_data_main demo_config demo_services broken_files demo_world) = Inl (KeyError ''description'') \<and>
   log (snd (load_data_main demo_config demo_services broken_files demo_world))
     = [DriverCall (Some ''bolt://localhost:7687'') (Some ''neo4j'') (Some ''secret''),
        SessionOpen, SessionClose]"
  by code_simp

text \<open>
  Claim C9 fails on the chat application. With none of the four variables set, a chat
  turn calls \<^verbatim>\<open>GraphDatabase.driver\<close> with a null address and null credentials and calls
  the generation service with a null key; what the user sees is the generic
  \<^verbatim>\<open>Error generating response.\<close> The connection test of the repository does check the
  key: with the key unset it calls nothing and prints that the variable is not set.
\<close>

theorem unset_variables_are_passed_on:
  "log (snd (chat_input_handler strict_services unset_config (Some ''Where are the laptops stored?'') demo_world))
     = [DriverCall None None None,
        GenerateCall None (build_prompt ''Error retrieving context.'' ''Where are the laptops stored?'')] \<and>
   messages (snd (chat_input_handler strict_services unset_config (Some ''Where are the laptops stored?'') demo_world))
     = [\<lparr>role = ''user'', content = ''Where are the laptops stored?''\<rparr>,
        \<lparr>role = ''assistant'', content = ''Error generating response.''\<rparr>] \<and>
   log (snd (load_data_main unset_config strict_services demo_files demo_world)) = [DriverCall None None None] \<and>
   log (snd (test_gemini_connection strict_services unset_config demo_world))
     = [Print (cross_mark @ '' Gemini API connection error: GEMINI_API_KEY environment variable is not set'')]"
  by code_simp

section \<open>Properties of the ingestion script: a second load\<close>

lemma sh_match_append:
  "sh_match l v (ns @ xs) = sh_match l v ns @
     filter (\<lambda>i. l \<in> set (fst ((ns @ xs) ! i)) \<and> cy_eq (snd ((ns @ xs) ! i)) v) [length ns..<length ns + length xs]"
proof -
  have "[0..<length ns + length xs] = [0..<length ns] @ [length ns..<length ns + length xs]"
    using upt_add_eq_append[of 0 "length ns" "length xs"] by simp
  moreover have "filter (\<lambda>i. l \<in> set (fst ((ns @ xs) ! i)) \<and> cy_eq (snd ((ns @ xs) ! i)) v) [0..<length ns]
               = filter (\<lambda>i. l \<in> set (fst (ns ! i)) \<and> cy_eq (snd (ns ! i)) v) [0..<length ns]"
    by (intro filter_cong) (auto simp: nth_append)
  ultimately show ?thesis by (simp add: sh_match_def)
qed

lemma sh_match_grows: "sh_match l v ns \<noteq> [] \<Longrightarrow> sh_match l v (ns @ xs) \<noteq> []"
  by (simp add: sh_match_append)

lemma sh_match_new: "v \<noteq> VNull \<Longrightarrow> sh_match l v (ns @ [([l], v)]) \<noteq> []"
  by (simp add: sh_match_append cy_eq_def)

lemma settled_step_id: "settled x s \<Longrightarrow> sh_step x s = s"
proof (cases x)
  case (NodeOp l v)
  assume "settled x s"
  with NodeOp show ?thesis by (cases s) simp
next
  case (EdgeOp ty la va lb vb)
  assume a: "settled x s"
  obtain ns es where s: "s = (ns, es)" by (cases s)
  have "\<forall>ab \<in> set ps. (ty, fst ab, snd ab) \<in> set es \<Longrightarrow> fold (sh_edge ty) ps es = es" for ps
    by (induction ps) (simp_all add: sh_edge_def)
  with a EdgeOp s show ?thesis by simp
next
  case NoOp
  then show ?thesis by simp
qed

lemma fold_settled_id: "\<forall>x \<in> set xs. settled x s \<Longrightarrow> fold sh_step xs s = s"
  by (induction xs) (simp_all add: settled_step_id)

lemma fold_sh_edge_mono: "e \<in> set es \<Longrightarrow> e \<in> set (fold (sh_edge ty) ps es)"
  by (induction ps arbitrary: es) (simp_all add: sh_edge_def)

lemma fold_sh_edge_covers: "ab \<in> set ps \<Longrightarrow> (ty, fst ab, snd ab) \<in> set (fold (sh_edge ty) ps es)"
proof (induction ps arbitrary: es)
  case Nil
  then show ?case by simp
next
  case (Cons p ps)
  show ?case
  proof (cases "ab = p")
    case True
    have "(ty, fst p, snd p) \<in> set (sh_edge ty p es)" by (simp add: sh_edge_def)
    then show ?thesis using True by (simp add: fold_sh_edge_mono)
  next
    case False
    with Cons show ?thesis by simp
  qed
qed

text \<open>A step establishes its own settledness.\<close>

lemma step_settles:
  assumes "is_node_op x \<or> is_edge_op x"
  shows "settled x (sh_step x s)"
proof (cases x)
  case (NodeOp l v)
  with assms have v: "v \<noteq> VNull" by (simp add: is_node_op_def is_edge_op_def)
  obtain ns es where s: "s = (ns, es)" by (cases s)
  show ?thesis using NodeOp s v by (simp add: sh_match_new)
next
  case (EdgeOp ty la va lb vb)
  obtain ns es where s: "s = (ns, es)" by (cases s)
  show ?thesis unfolding EdgeOp s sh_step.simps settled.simps
    using fold_sh_edge_covers by blast
next
  case NoOp
  then show ?thesis by simp
qed

text \<open>Node steps keep node steps settled; edge steps keep every step settled.\<close>

lemma node_step_keeps_node_settled:
  assumes "is_node_op y" and "is_node_op x" and "settled x s"
  shows "settled x (sh_step y s)"
proof -
  obtain ns es where s: "s = (ns, es)" by (cases s)
  show ?thesis
  proof (cases x)
    case (NodeOp l v)
    with assms(3) s have m: "sh_match l v ns \<noteq> []" by simp
    show ?thesis
    proof (cases y)
      case (NodeOp l' v')
      with m s \<open>x = NodeOp l v\<close> show ?thesis by (simp add: sh_match_grows)
    next
      case (EdgeOp ty la va lb vb)
      with assms(1) show ?thesis by (simp add: is_node_op_def)
    next
      case NoOp
      with assms(3) show ?thesis by simp
    qed
  next
    case (EdgeOp ty la va lb vb)
    with assms(2) show ?thesis by (simp add: is_node_op_def)
  next
    case NoOp
    then show ?thesis by simp
  qed
qed

lemma edge_step_keeps_settled:
  assumes "is_edge_op y" and "settled x s"
  shows "settled x (sh_step y s)"
proof -
  obtain ns es where s: "s = (ns, es)" by (cases s)
  show ?thesis
  proof (cases y)
    case (NodeOp l v)
    with assms(1) show ?thesis by (simp add: is_edge_op_def)
  next
    case NoOp
    with assms(2) show ?thesis by simp
  next
    case (EdgeOp ty la va lb vb)
    show ?thesis
    proof (cases x)
      case (NodeOp l v)
      with assms(2) s EdgeOp show ?thesis by simp
    next
      case NoOp
      then show ?thesis by simp
    next
      case (EdgeOp ty' la' va' lb' vb')
      with assms(2) s \<open>y = EdgeOp ty la va lb vb\<close> show ?thesis
        by (simp add: fold_sh_edge_mono)
    qed
  qed
qed

lemma fold_node_steps_settle:
  assumes "\<forall>y \<in> set ys. is_node_op y"
  shows "(\<forall>x \<in> set ys. settled x (fold sh_step ys s)) \<and>
         (\<forall>x. is_node_op x \<and> settled x s \<longrightarrow> settled x (fold sh_step ys s))"
  using assms
proof (induction ys arbitrary: s)
  case Nil
  then show ?case by simp
next
  case (Cons y ys)
  then have y: "is_node_op y" and ys: "\<forall>y \<in> set ys. is_node_op y" by simp_all
  note IH = Cons.IH[OF ys, of "sh_step y s"]
  have "settled y (sh_step y s)" using y by (simp add: step_settles)
  with IH y have "settled y (fold sh_step ys (sh_step y s))" by blast
  moreover have "\<forall>x. is_node_op x \<and> settled x s \<longrightarrow> settled x (fold sh_step ys (sh_step y s))"
    using IH node_step_keeps_node_settled[OF y] by blast
  ultimately show ?case using IH by simp
qed

lemma fold_edge_steps_settle:
  assumes "\<forall>y \<in> set ys. is_edge_op y"
  shows "(\<forall>x \<in> set ys. settled x (fold sh_step ys s)) \<and>
         (\<forall>x. settled x s \<longrightarrow> settled x (fold sh_step ys s))"
  using assms
proof (induction ys arbitrary: s)
  case Nil
  then show ?case by simp
next
  case (Cons y ys)
  then have y: "is_edge_op y" and ys: "\<forall>y \<in> set ys. is_edge_op y" by simp_all
  note IH = Cons.IH[OF ys, of "sh_step y s"]
  have "settled y (sh_step y s)" using y by (simp add: step_settles)
  with IH have "settled y (fold sh_step ys (sh_step y s))" by blast
  moreover have "\<forall>x. settled x s \<longrightarrow> settled x (fold sh_step ys (sh_step y s))"
    using IH edge_step_keeps_settled[OF y] by blast
  ultimately show ?case using IH by simp
qed

lemma steps_idempotent:
  assumes "\<forall>y \<in> set ns. is_node_op y" and "\<forall>y \<in> set es. is_edge_op y"
  shows "fold sh_step (ns @ es) (fold sh_step (ns @ es) s) = fold sh_step (ns @ es) s"
proof -
  let ?s1 = "fold sh_step ns s"
  let ?s2 = "fold sh_step es ?s1"
  have "\<forall>x \<in> set ns. settled x ?s1" using fold_node_steps_settle[OF assms(1)] by blast
  then have "\<forall>x \<in> set ns. settled x ?s2" using fold_edge_steps_settle[OF assms(2)] by blast
  moreover have "\<forall>x \<in> set es. settled x ?s2" using fold_edge_steps_settle[OF assms(2)] by blast
  ultimately have "\<forall>x \<in> set (ns @ es). settled x ?s2" by auto
  then have "fold sh_step (ns @ es) ?s2 = ?s2" by (rule fold_settled_id)
  then show ?thesis by simp
qed

lemma match_nodes_shape: "match_nodes l v g = sh_match l v (fst (shape_of g))"
  unfolding match_nodes_def sh_match_def shape_of_def
  by (rule filter_cong) (simp_all add: has_label_def)

lemma has_edge_shape: "has_edge g ty a b \<longleftrightarrow> (ty, a, b) \<in> set (snd (shape_of g))"
  by (auto simp: has_edge_def shape_of_def image_iff)

lemma shape_of_update_node:
  assumes "labels (f (nodes g ! i)) = labels (nodes g ! i)"
    and "props (f (nodes g ! i)) ''id'' = props (nodes g ! i) ''id''"
  shows "shape_of (g\<lparr>nodes := (nodes g)[i := f (nodes g ! i)]\<rparr>) = shape_of g"
proof -
  have "map (\<lambda>n. (labels n, props n ''id'')) ((nodes g)[i := f (nodes g ! i)])
        = (map (\<lambda>n. (labels n, props n ''id'')) (nodes g))[i := (labels (nodes g ! i), props (nodes g ! i) ''id'')]"
    using assms by (simp add: map_update)
  also have "\<dots> = map (\<lambda>n. (labels n, props n ''id'')) (nodes g)"
    by (cases "i < length (nodes g)") (simp_all add: list_update_same_conv list_update_beyond)
  finally show ?thesis by (simp add: shape_of_def)
qed

lemma shape_of_set_node:
  assumes "\<And>n. labels (f n) = labels n" and "\<And>n. props (f n) ''id'' = props n ''id''"
  shows "shape_of (set_node f rows g) = shape_of g"
  unfolding set_node_def
  by (induction rows arbitrary: g) (simp_all add: shape_of_update_node assms)

lemma shape_of_update_edge:
  assumes "etype (f (edges g ! j)) = etype (edges g ! j)"
    and "src (f (edges g ! j)) = src (edges g ! j)" and "dst (f (edges g ! j)) = dst (edges g ! j)"
  shows "shape_of (g\<lparr>edges := (edges g)[j := f (edges g ! j)]\<rparr>) = shape_of g"
proof -
  have "map (\<lambda>e. (etype e, src e, dst e)) ((edges g)[j := f (edges g ! j)])
        = (map (\<lambda>e. (etype e, src e, dst e)) (edges g))[j := (etype (edges g ! j), src (edges g ! j), dst (edges g ! j))]"
    using assms by (simp add: map_update)
  also have "\<dots> = map (\<lambda>e. (etype e, src e, dst e)) (edges g)"
    by (cases "j < length (edges g)") (simp_all add: list_update_same_conv list_update_beyond)
  finally show ?thesis by (simp add: shape_of_def)
qed

lemma shape_of_set_edge:
  assumes "\<And>e. etype (f e) = etype e" and "\<And>e. src (f e) = src e" and "\<And>e. dst (f e) = dst e"
  shows "shape_of (set_edge f rows g) = shape_of g"
  unfolding set_edge_def
  by (induction rows arbitrary: g) (simp_all add: shape_of_update_edge assms)

lemma merge_node_shape:
  assumes "merge_node l v g = Inr (h, rows)"
  shows "v \<noteq> VNull \<and> shape_of h = sh_step (NodeOp l v) (shape_of g)"
proof -
  from assms have v: "v \<noteq> VNull" by (auto simp: merge_node_def split: if_splits)
  show ?thesis
  proof (cases "match_nodes l v g = []")
    case True
    with assms v have "h = g\<lparr>nodes := nodes g @ [new_node l v]\<rparr>"
      by (simp add: merge_node_def)
    moreover have "sh_match l v (fst (shape_of g)) = []"
      using True by (simp add: match_nodes_shape)
    ultimately show ?thesis using v
      by (simp add: shape_of_def new_node_def)
  next
    case False
    with assms v have "h = g" by (simp add: merge_node_def Let_def)
    moreover have "sh_match l v (fst (shape_of g)) \<noteq> []"
      using False by (simp add: match_nodes_shape)
    ultimately show ?thesis using v
      by (cases "shape_of g") simp
  qed
qed

lemma q_supplier_shape:
  assumes "q_supplier d g = Inr h"
  shows "arg d ''id'' \<noteq> VNull \<and> shape_of h = sh_step (NodeOp ''Supplier'' (arg d ''id'')) (shape_of g)"
proof -
  from assms obtain h0 rows where m: "merge_node ''Supplier'' (arg d ''id'') g = Inr (h0, rows)"
    and h: "h = set_node (\<lambda>n. set_prop ''specialization'' (arg d ''specialization'')
                     (set_prop ''location'' (arg d ''location'')
                     (set_prop ''name'' (arg d ''name'') n))) rows h0"
    by (auto simp: q_supplier_def split: option.splits sum.splits)
  have "shape_of h = shape_of h0"
    unfolding h by (rule shape_of_set_node) (simp_all add: set_prop_def)
  with merge_node_shape[OF m] show ?thesis by simp
qed

lemma q_warehouse_shape:
  assumes "q_warehouse d g = Inr h"
  shows "arg d ''id'' \<noteq> VNull \<and> shape_of h = sh_step (NodeOp ''Warehouse'' (arg d ''id'')) (shape_of g)"
proof -
  from assms obtain h0 rows where m: "merge_node ''Warehouse'' (arg d ''id'') g = Inr (h0, rows)"
    and h: "h = set_node (\<lambda>n. set_prop ''capacity'' (arg d ''capacity'')
                     (set_prop ''location'' (arg d ''location'')
                     (set_prop ''name'' (arg d ''name'') n))) rows h0"
    by (auto simp: q_warehouse_def split: option.splits sum.splits)
  have "shape_of h = shape_of h0"
    unfolding h by (rule shape_of_set_node) (simp_all add: set_prop_def)
  with merge_node_shape[OF m] show ?thesis by simp
qed

lemma q_product_shape:
  assumes "q_product pid name description price category emb g = Inr h"
  shows "pid \<noteq> VNull \<and> shape_of h = sh_step (NodeOp ''Product'' pid) (shape_of g)"
proof -
  from assms obtain h0 rows where m: "merge_node ''Product'' pid g = Inr (h0, rows)"
    and h: "h = set_node (\<lambda>n. (set_prop ''category'' category (set_prop ''price'' price
                 (set_prop ''description'' description (set_prop ''name'' name n))))
                 \<lparr>embedding := Some emb\<rparr>) rows h0"
    by (auto simp: q_product_def split: sum.splits)
  have "shape_of h = shape_of h0"
    unfolding h by (rule shape_of_set_node) (simp_all add: set_prop_def)
  with merge_node_shape[OF m] show ?thesis by simp
qed

lemma q_create_index_shape: "q_create_index g = Inr h \<Longrightarrow> shape_of h = sh_step NoOp (shape_of g)"
  by (auto simp: q_create_index_def shape_of_def split: if_splits)

lemma merge_edge_g_shape:
  "shape_of (merge_edge_g ty ab g) = (fst (shape_of g), sh_edge ty ab (snd (shape_of g)))"
proof (cases "has_edge g ty (fst ab) (snd ab)")
  case True
  then show ?thesis
    using has_edge_shape[of g ty "fst ab" "snd ab"] by (simp add: merge_edge_g_def sh_edge_def)
next
  case False
  then show ?thesis
    using has_edge_shape[of g ty "fst ab" "snd ab"]
    by (simp add: merge_edge_g_def sh_edge_def shape_of_def new_edge_def)
qed

lemma fold_merge_edge_g_shape:
  "shape_of (fold (merge_edge_g ty) ps g) = (fst (shape_of g), fold (sh_edge ty) ps (snd (shape_of g)))"
  by (induction ps arbitrary: g) (simp_all add: merge_edge_g_shape)

lemma merge_edges_shape:
  "shape_of (fst (merge_edges ty (List.product (match_nodes la va g) (match_nodes lb vb g)) g))
     = sh_step (EdgeOp ty la va lb vb) (shape_of g)"
  by (cases "shape_of g") (simp add: fst_merge_edges fold_merge_edge_g_shape match_nodes_shape)

lemma q_supplies_shape:
  assumes "q_supplies d g = Inr h"
  shows "shape_of h = sh_step (EdgeOp ''SUPPLIES'' ''Supplier'' (arg d ''supplier_id'')
                                ''Product'' (arg d ''product_id'')) (shape_of g)"
  using assms by (auto simp: q_supplies_def merge_edges_shape split: option.splits)

lemma q_stored_at_shape:
  assumes "q_stored_at d g = Inr h"
  shows "shape_of h = sh_step (EdgeOp ''STORED_AT'' ''Product'' (arg d ''product_id'')
                                ''Warehouse'' (arg d ''warehouse_id'')) (shape_of g)"
  using assms by (auto simp: q_stored_at_def merge_edges_shape split: option.splits)

lemma q_route_shape:
  assumes "q_route d g = Inr h"
  shows "shape_of h = sh_step (EdgeOp ''CONNECTED_TO'' ''Warehouse'' (arg d ''from'')
                                ''Warehouse'' (arg d ''to'')) (shape_of g)"
proof -
  let ?r = "merge_edges ''CONNECTED_TO''
              (List.product (match_nodes ''Warehouse'' (arg d ''from'') g)
                            (match_nodes ''Warehouse'' (arg d ''to'') g)) g"
  from assms have h: "h = set_edge (\<lambda>e. set_eprop ''duration'' (arg d ''duration'')
                      (set_eprop ''distance'' (arg d ''distance'') e)) (snd ?r) (fst ?r)"
    by (auto simp: q_route_def Let_def split: option.splits)
  have "shape_of h = shape_of (fst ?r)"
    unfolding h by (rule shape_of_set_edge) (simp_all add: set_eprop_def)
  then show ?thesis by (simp add: merge_edges_shape)
qed

lemma performs_run:
  assumes "\<And>g h. q g = Inr h \<Longrightarrow> valid_op x \<and> shape_of h = sh_step x (shape_of g)"
  shows "performs (run q) [x]"
  unfolding performs_def
proof (intro allI impI)
  fix w r w'
  assume a: "run q w = (Inr r, w')"
  then obtain h where h: "q (store w) = Inr h" and w': "w' = w\<lparr>store := h\<rparr>"
    by (auto simp: run_def split: sum.splits)
  from assms[OF h] w' show "shape_of (store w') = fold sh_step [x] (shape_of (store w)) \<and> (\<forall>y \<in> set [x]. valid_op y)"
    by simp
qed

lemma performs_ret: "performs (ret x) []"
  by (simp add: performs_def ret_def)

lemma performs_seq:
  assumes "performs m d1" and "performs k d2"
  shows "performs (seq m k) (d1 @ d2)"
  unfolding performs_def
proof (intro allI impI)
  fix w r w'
  assume a: "seq m k w = (Inr r, w')"
  then obtain u w1 where m: "m w = (Inr u, w1)" and k: "k w1 = (Inr r, w')"
    by (auto simp: seq_def bind_def split: prod.splits sum.splits)
  from assms(1) m have 1: "shape_of (store w1) = fold sh_step d1 (shape_of (store w))" "\<forall>x \<in> set d1. valid_op x"
    unfolding performs_def by blast+
  from assms(2) k have 2: "shape_of (store w') = fold sh_step d2 (shape_of (store w1))" "\<forall>x \<in> set d2. valid_op x"
    unfolding performs_def by blast+
  from 1 2 show "shape_of (store w') = fold sh_step (d1 @ d2) (shape_of (store w)) \<and> (\<forall>x \<in> set (d1 @ d2). valid_op x)"
    by auto
qed

lemma performs_for_each:
  assumes "\<And>x. x \<in> set xs \<Longrightarrow> performs (body x) (d x)"
  shows "performs (for_each xs body) (concat (map d xs))"
  using assms
proof (induction xs)
  case Nil
  then show ?case by (simp add: performs_ret)
next
  case (Cons x xs)
  have "performs (seq (body x) (for_each xs body)) (d x @ concat (map d xs))"
    by (intro performs_seq Cons) simp_all
  then show ?case by simp
qed

lemma performs_with_session:
  assumes "performs body d"
  shows "performs (with_session body) d"
  unfolding performs_def
proof (intro allI impI)
  fix w r w'
  assume a: "with_session body w = (Inr r, w')"
  let ?w = "w\<lparr>log := log w @ [SessionOpen]\<rparr>"
  from a obtain w1 where b: "body ?w = (Inr r, w1)" and w': "w' = w1\<lparr>log := log w1 @ [SessionClose]\<rparr>"
    by (auto simp: with_session_def seq_def bind_def emit_def finally_do_def split: prod.splits)
  from assms b have "shape_of (store w1) = fold sh_step d (shape_of (store ?w)) \<and> (\<forall>x \<in> set d. valid_op x)"
    unfolding performs_def by blast
  with w' show "shape_of (store w') = fold sh_step d (shape_of (store w)) \<and> (\<forall>x \<in> set d. valid_op x)"
    by simp
qed

lemma shape_of_store_update [simp]: "shape_of (store (w\<lparr>store := h\<rparr>)) = shape_of h"
  by simp

lemma load_product_ok:
  assumes "load_product enc p w = (Inr r, w')"
  shows "\<exists>name description price category emb h.
           q_product (arg p ''id'') name description price category emb (store w) = Inr h \<and> store w' = h"
  using assms
  by (auto simp: load_product_def bind_def item_def ret_def raise_def encode_def with_session_def
      seq_def emit_def finally_do_def run_def arg_def split: option.splits sum.splits prod.splits)
     blast

lemma performs_load_product: "performs (load_product enc p) [NodeOp ''Product'' (arg p ''id'')]"
  unfolding performs_def
proof (intro allI impI)
  fix w r w'
  assume "load_product enc p w = (Inr r, w')"
  from load_product_ok[OF this] obtain name description price category emb where
    "q_product (arg p ''id'') name description price category emb (store w) = Inr (store w')" by blast
  from q_product_shape[OF this]
  show "shape_of (store w') = fold sh_step [NodeOp ''Product'' (arg p ''id'')] (shape_of (store w)) \<and>
        (\<forall>x \<in> set [NodeOp ''Product'' (arg p ''id'')]. valid_op x)"
    by (simp add: valid_op_def)
qed

lemma performs_load_all_data: "performs (load_all_data enc fx) (node_plan fx @ edge_plan fx)"
proof -
  have 1: "performs (load_products enc fx) (NoOp # map (\<lambda>p. NodeOp ''Product'' (arg p ''id'')) (products fx))"
  proof -
    have "performs (load_products enc fx)
            ([NoOp] @ concat (map (\<lambda>p. [NodeOp ''Product'' (arg p ''id'')]) (products fx)))"
      unfolding load_products_def
      by (intro performs_seq performs_with_session performs_for_each performs_load_product performs_run)
         (simp add: valid_op_def q_create_index_shape)
    then show ?thesis by simp
  qed
  have 2: "performs (load_suppliers fx) (map (\<lambda>s. NodeOp ''Supplier'' (arg s ''id'')) (suppliers fx))"
  proof -
    have "performs (load_suppliers fx) (concat (map (\<lambda>s. [NodeOp ''Supplier'' (arg s ''id'')]) (suppliers fx)))"
      unfolding load_suppliers_def
      by (intro performs_with_session performs_for_each performs_run)
         (simp add: valid_op_def q_supplier_shape)
    then show ?thesis by simp
  qed
  have 3: "performs (load_warehouses fx) (map (\<lambda>w. NodeOp ''Warehouse'' (arg w ''id'')) (warehouses fx))"
  proof -
    have "performs (load_warehouses fx) (concat (map (\<lambda>w. [NodeOp ''Warehouse'' (arg w ''id'')]) (warehouses fx)))"
      unfolding load_warehouses_def
      by (intro performs_with_session performs_for_each performs_run)
         (simp add: valid_op_def q_warehouse_shape)
    then show ?thesis by simp
  qed
  have 4: "performs (load_transportation_routes fx)
             (map (\<lambda>r. EdgeOp ''CONNECTED_TO'' ''Warehouse'' (arg r ''from'') ''Warehouse'' (arg r ''to'')) (routes fx))"
  proof -
    have "performs (load_transportation_routes fx)
            (concat (map (\<lambda>r. [EdgeOp ''CONNECTED_TO'' ''Warehouse'' (arg r ''from'') ''Warehouse'' (arg r ''to'')]) (routes fx)))"
      unfolding load_transportation_routes_def
      by (intro performs_with_session performs_for_each performs_run)
         (simp add: valid_op_def q_route_shape)
    then show ?thesis by simp
  qed
  have 5: "performs (create_relationships fx)
     (concat (map (\<lambda>r. [EdgeOp ''SUPPLIES'' ''Supplier'' (arg r ''supplier_id'') ''Product'' (arg r ''product_id'')]
                      @ [EdgeOp ''STORED_AT'' ''Product'' (arg r ''product_id'') ''Warehouse'' (arg r ''warehouse_id'')])
               (relationships fx)))"
    unfolding create_relationships_def relationship_step_def
    by (intro performs_with_session performs_for_each performs_seq performs_run)
       (simp_all add: valid_op_def q_supplies_shape q_stored_at_shape)
  have "performs (load_all_data enc fx)
     ((NoOp # map (\<lambda>p. NodeOp ''Product'' (arg p ''id'')) (products fx))
      @ map (\<lambda>s. NodeOp ''Supplier'' (arg s ''id'')) (suppliers fx)
      @ map (\<lambda>w. NodeOp ''Warehouse'' (arg w ''id'')) (warehouses fx)
      @ map (\<lambda>r. EdgeOp ''CONNECTED_TO'' ''Warehouse'' (arg r ''from'') ''Warehouse'' (arg r ''to'')) (routes fx)
      @ concat (map (\<lambda>r. [EdgeOp ''SUPPLIES'' ''Supplier'' (arg r ''supplier_id'') ''Product'' (arg r ''product_id'')]
                      @ [EdgeOp ''STORED_AT'' ''Product'' (arg r ''product_id'') ''Warehouse'' (arg r ''warehouse_id'')])
               (relationships fx)))"
    unfolding load_all_data_def by (intro performs_seq 1 2 3 4 5)
  then show ?thesis by (simp add: node_plan_def edge_plan_def)
qed

lemma same_outcome_ret: "same_outcome (ret x)"
  by (simp add: same_outcome_def ret_def)

lemma same_outcome_raise: "same_outcome (raise e)"
  by (simp add: same_outcome_def raise_def)

lemma same_outcome_item: "same_outcome (item d k)"
  by (simp add: item_def same_outcome_ret same_outcome_raise split: option.splits)

lemma same_outcome_encode: "same_outcome (encode enc v)"
  by (simp add: encode_def same_outcome_ret same_outcome_raise split: option.splits)

lemma fst_run: "fst (run q w) = outcome (q (store w))"
  by (simp add: run_def outcome_def split: sum.splits)

lemma same_outcome_run:
  assumes "\<And>g g'. outcome (q g) = outcome (q g')"
  shows "same_outcome (run q)"
  unfolding same_outcome_def fst_run using assms by blast

lemma fst_bind: "fst (bind m f w) = (case fst (m w) of Inl e \<Rightarrow> Inl e | Inr x \<Rightarrow> fst (f x (snd (m w))))"
  by (simp add: bind_def split: prod.splits sum.splits)

lemma same_outcome_bind:
  assumes "same_outcome m" and "\<And>x. same_outcome (f x)"
  shows "same_outcome (bind m f)"
  unfolding same_outcome_def
proof (intro allI)
  fix w w'
  have m: "fst (m w) = fst (m w')" using assms(1) by (simp add: same_outcome_def)
  show "fst (bind m f w) = fst (bind m f w')"
  proof (cases "fst (m w)")
    case (Inl e)
    then have "fst (m w) = Inl e" "fst (m w') = Inl e" using m by simp_all
    then show ?thesis by (simp add: fst_bind)
  next
    case (Inr x)
    then have r: "fst (m w) = Inr x" "fst (m w') = Inr x" using m by simp_all
    have "fst (f x (snd (m w))) = fst (f x (snd (m w')))"
      using assms(2)[of x] by (simp add: same_outcome_def)
    with r show ?thesis by (simp add: fst_bind)
  qed
qed

lemma same_outcome_seq: "same_outcome m \<Longrightarrow> same_outcome k \<Longrightarrow> same_outcome (seq m k)"
  by (simp add: seq_def same_outcome_bind)

lemma same_outcome_for_each: "(\<And>x. same_outcome (body x)) \<Longrightarrow> same_outcome (for_each xs body)"
  by (induction xs) (simp_all add: same_outcome_ret same_outcome_seq)

lemma fst_with_session: "fst (with_session body w) = fst (body (w\<lparr>log := log w @ [SessionOpen]\<rparr>))"
  by (simp add: with_session_def seq_def bind_def emit_def finally_do_def split: prod.splits)

lemma same_outcome_with_session: "same_outcome body \<Longrightarrow> same_outcome (with_session body)"
  by (simp add: same_outcome_def fst_with_session)

lemma outcome_merge_node:
  "(case merge_node l v g of Inl e \<Rightarrow> Inl e | Inr x \<Rightarrow> Inr ()) =
     (if v = VNull then Inl (MergeNullProperty ''id'') else Inr ())"
  by (simp add: merge_node_def Let_def)

lemma outcome_q_create_index: "outcome (q_create_index g) = Inr ()"
  by (simp add: q_create_index_def outcome_def)

lemma outcome_q_product:
  "outcome (q_product pid name description price category emb g) =
     (if pid = VNull then Inl (MergeNullProperty ''id'') else Inr ())"
  using outcome_merge_node[of "''Product''" pid g]
  by (auto simp: q_product_def outcome_def split: sum.splits if_splits)

lemma outcome_q_supplier:
  "outcome (q_supplier d g) =
     (case need [''id'', ''name'', ''location'', ''specialization''] d of
        Some e \<Rightarrow> Inl e
      | None \<Rightarrow> if arg d ''id'' = VNull then Inl (MergeNullProperty ''id'') else Inr ())"
  using outcome_merge_node[of "''Supplier''" "arg d ''id''" g]
  by (auto simp: q_supplier_def outcome_def split: sum.splits option.splits if_splits)

lemma outcome_q_warehouse:
  "outcome (q_warehouse d g) =
     (case need [''id'', ''name'', ''location'', ''capacity''] d of
        Some e \<Rightarrow> Inl e
      | None \<Rightarrow> if arg d ''id'' = VNull then Inl (MergeNullProperty ''id'') else Inr ())"
  using outcome_merge_node[of "''Warehouse''" "arg d ''id''" g]
  by (auto simp: q_warehouse_def outcome_def split: sum.splits option.splits if_splits)

lemma outcome_q_route:
  "outcome (q_route d g) =
     (case need [''from'', ''to'', ''distance'', ''duration''] d of Some e \<Rightarrow> Inl e | None \<Rightarrow> Inr ())"
  by (simp add: q_route_def outcome_def Let_def split: option.splits)

lemma outcome_q_supplies:
  "outcome (q_supplies d g) =
     (case need [''supplier_id'', ''product_id''] d of Some e \<Rightarrow> Inl e | None \<Rightarrow> Inr ())"
  by (simp add: q_supplies_def outcome_def split: option.splits)

lemma outcome_q_stored_at:
  "outcome (q_stored_at d g) =
     (case need [''product_id'', ''warehouse_id''] d of Some e \<Rightarrow> Inl e | None \<Rightarrow> Inr ())"
  by (simp add: q_stored_at_def outcome_def split: option.splits)

lemma same_outcome_load_product: "same_outcome (load_product enc p)"
  unfolding load_product_def
  by (intro same_outcome_bind same_outcome_item same_outcome_encode same_outcome_with_session
      same_outcome_run) (simp add: outcome_q_product)

lemma same_outcome_load_all_data: "same_outcome (load_all_data enc fx)"
  unfolding load_all_data_def load_products_def load_suppliers_def load_warehouses_def
    load_transportation_routes_def create_relationships_def relationship_step_def
  by (intro same_outcome_seq same_outcome_with_session same_outcome_for_each same_outcome_run
      same_outcome_load_product)
     (simp_all add: outcome_q_create_index outcome_q_supplier outcome_q_warehouse outcome_q_route
      outcome_q_supplies outcome_q_stored_at)

lemma node_plan_ops:
  assumes "\<forall>x \<in> set (node_plan fx). valid_op x"
  shows "\<forall>x \<in> set (node_plan fx). is_node_op x"
proof
  fix x assume x: "x \<in> set (node_plan fx)"
  with assms have v: "valid_op x" by blast
  show "is_node_op x"
  proof (cases x)
    case (NodeOp l v)
    with v show ?thesis by (simp add: valid_op_def is_node_op_def)
  next
    case (EdgeOp ty la va lb vb)
    with x show ?thesis by (auto simp: node_plan_def)
  next
    case NoOp
    then show ?thesis by (simp add: is_node_op_def)
  qed
qed

lemma edge_plan_ops: "\<forall>x \<in> set (edge_plan fx). is_edge_op x"
  by (auto simp: edge_plan_def is_edge_op_def)

lemma length_shape:
  "shape_of g = shape_of h \<Longrightarrow> length (nodes g) = length (nodes h) \<and> length (edges g) = length (edges h)"
  by (auto simp: shape_of_def dest: map_eq_imp_length_eq)

text \<open>
  Claim C5. When a load of the fixtures has ended normally, a second load of the same
  fixtures also ends normally and leaves as many nodes and as many relationships as the
  first: every node upsert of the second load finds the node of its label and id, every
  relationship merge finds the relationship of its type between its two ends, and
  nothing is created. The labels and ids of the nodes and the types and ends of the
  relationships are those left by the first load.
\<close>

theorem second_load_creates_nothing:
  assumes "load_all_data enc fx w = (Inr (), w1)"
  shows "\<exists>w2. load_all_data enc fx w1 = (Inr (), w2) \<and>
           length (nodes (store w2)) = length (nodes (store w1)) \<and>
           length (edges (store w2)) = length (edges (store w1)) \<and>
           map labels (nodes (store w2)) = map labels (nodes (store w1)) \<and>
           map (\<lambda>n. props n ''id'') (nodes (store w2)) = map (\<lambda>n. props n ''id'') (nodes (store w1)) \<and>
           map (\<lambda>e. (etype e, src e, dst e)) (edges (store w2))
             = map (\<lambda>e. (etype e, src e, dst e)) (edges (store w1))"
proof -
  let ?plan = "node_plan fx @ edge_plan fx"
  from performs_load_all_data[of enc fx] assms
  have s1: "shape_of (store w1) = fold sh_step ?plan (shape_of (store w))"
    and v: "\<forall>x \<in> set ?plan. valid_op x"
    unfolding performs_def by blast+
  have "fst (load_all_data enc fx w1) = fst (load_all_data enc fx w)"
    using same_outcome_load_all_data[of enc fx] by (simp add: same_outcome_def)
  with assms have "fst (load_all_data enc fx w1) = Inr ()" by simp
  then obtain w2 where l2: "load_all_data enc fx w1 = (Inr (), w2)"
    by (cases "load_all_data enc fx w1") auto
  from performs_load_all_data[of enc fx] l2
  have s2: "shape_of (store w2) = fold sh_step ?plan (shape_of (store w1))"
    unfolding performs_def by blast
  have n: "\<forall>x \<in> set (node_plan fx). is_node_op x" using v by (intro node_plan_ops) simp
  have "shape_of (store w2) = shape_of (store w1)"
    unfolding s2 s1 by (rule steps_idempotent[OF n edge_plan_ops])
  moreover from this have "map (\<lambda>n. (labels n, props n ''id'')) (nodes (store w2))
        = map (\<lambda>n. (labels n, props n ''id'')) (nodes (store w1))"
    by (simp add: shape_of_def)
  then have "map fst (map (\<lambda>n. (labels n, props n ''id'')) (nodes (store w2)))
               = map fst (map (\<lambda>n. (labels n, props n ''id'')) (nodes (store w1)))"
       and "map snd (map (\<lambda>n. (labels n, props n ''id'')) (nodes (store w2)))
               = map snd (map (\<lambda>n. (labels n, props n ''id'')) (nodes (store w1)))"
    by simp_all
  then have "map labels (nodes (store w2)) = map labels (nodes (store w1))"
    and "map (\<lambda>n. props n ''id'') (nodes (store w2)) = map (\<lambda>n. props n ''id'') (nodes (store w1))"
    by (simp_all add: comp_def)
  moreover have "map (\<lambda>e. (etype e, src e, dst e)) (edges (store w2))
             = map (\<lambda>e. (etype e, src e, dst e)) (edges (store w1))"
    using \<open>shape_of (store w2) = shape_of (store w1)\<close> by (simp add: shape_of_def)
  ultimately show ?thesis using l2 length_shape[of "store w2" "store w1"]
    by blast
qed

lemma seq_succeeds:
  assumes "fst (m w) = Inr ()" and "\<And>w'. fst (k w') = Inr ()"
  shows "fst (seq m k w) = Inr ()"
  using assms by (simp add: seq_def fst_bind)

lemma for_each_succeeds:
  assumes "\<And>x w'. x \<in> set xs \<Longrightarrow> fst (body x w') = Inr ()"
  shows "fst (for_each xs body w) = Inr ()"
  using assms
proof (induction xs arbitrary: w)
  case Nil
  then show ?case by (simp add: ret_def)
next
  case (Cons x xs)
  show ?case unfolding for_each.simps
    by (rule seq_succeeds) (simp_all add: Cons)
qed

lemma with_session_succeeds:
  assumes "\<And>w'. fst (body w') = Inr ()"
  shows "fst (with_session body w) = Inr ()"
  by (simp add: fst_with_session assms)

lemma run_succeeds:
  assumes "\<And>g. outcome (q g) = Inr ()"
  shows "fst (run q w) = Inr ()"
  by (simp add: fst_run assms)

lemma demo_product_succeeds: "fst (load_product demo_enc (demo_product i n) w) = Inr ()"
proof -
  have "snd (item d k w') = w'" for d k and w' :: world
    by (simp add: item_def ret_def raise_def split: option.splits)
  moreover have "snd (encode enc v w') = w'" for enc v and w' :: world
    by (simp add: encode_def ret_def raise_def split: option.splits)
  moreover have "fst (item (demo_product i n) k w') = (case demo_product i n k of None \<Rightarrow> Inl (KeyError k) | Some v \<Rightarrow> Inr v)"
    for k and w' :: world
    by (simp add: item_def ret_def raise_def split: option.splits)
  moreover have "fst (encode demo_enc (VStr s) w') = Inr [1, 0]" for s and w' :: world
    by (simp add: encode_def demo_enc_def ret_def)
  ultimately show ?thesis
    by (simp add: load_product_def fst_bind fst_with_session fst_run outcome_q_product demo_product_def)
qed

lemma demo_load_ok: "fst (load_all_data demo_enc demo_fixtures w) = Inr ()"
  unfolding load_all_data_def load_products_def load_suppliers_def load_warehouses_def
    load_transportation_routes_def create_relationships_def relationship_step_def
  by (intro seq_succeeds for_each_succeeds with_session_succeeds run_succeeds)
     (auto simp: demo_fixtures_def demo_product_succeeds outcome_q_create_index outcome_q_supplier
        outcome_q_warehouse outcome_q_route outcome_q_supplies outcome_q_stored_at
        demo_supplier_def demo_warehouse_def demo_route_def demo_rel_def arg_def)

lemma demo_shape: "shape_of demo_graph =
   ([([''Product''], VStr ''p1''), ([''Supplier''], VStr ''s1''), ([''Warehouse''], VStr ''w1'')], [])"
  by (simp add: shape_of_def demo_graph_def new_node_def)

lemma demo_plan_shape:
  "fold sh_step (node_plan demo_fixtures @ edge_plan demo_fixtures)
     ([([''Product''], VStr ''p1''), ([''Supplier''], VStr ''s1''), ([''Warehouse''], VStr ''w1'')], [])
   = ([([''Product''], VStr ''p1''), ([''Supplier''], VStr ''s1''), ([''Warehouse''], VStr ''w1''),
       ([''Product''], VStr ''p2''), ([''Supplier''], VStr ''s2''), ([''Warehouse''], VStr ''w2'')],
      [(''CONNECTED_TO'', 2, 5), (''SUPPLIES'', 1, 0), (''STORED_AT'', 0, 2), (''STORED_AT'', 3, 5)])"
  by code_simp

text \<open>
  On the example, the first load adds a product, a supplier and a warehouse to the three
  nodes of the store and creates four relationships; the second load keeps the six nodes
  and the four relationships.
\<close>

theorem second_load_creates_nothing_witness:
  "\<exists>w2. load_all_data demo_enc demo_fixtures (snd (load_all_data demo_enc demo_fixtures demo_world))
           = (Inr (), w2) \<and>
         length (nodes (store w2)) = 6 \<and> length (edges (store w2)) = 4"
proof -
  let ?w1 = "snd (load_all_data demo_enc demo_fixtures demo_world)"
  have first: "load_all_data demo_enc demo_fixtures demo_world = (Inr (), ?w1)"
    using demo_load_ok[of demo_world] by (metis prod.collapse)
  from performs_load_all_data[of demo_enc demo_fixtures] first
  have "shape_of (store ?w1) =
          fold sh_step (node_plan demo_fixtures @ edge_plan demo_fixtures) (shape_of (store demo_world))"
    unfolding performs_def by blast
  moreover have s0: "shape_of (store demo_world) =
      ([([''Product''], VStr ''p1''), ([''Supplier''], VStr ''s1''), ([''Warehouse''], VStr ''w1'')], [])"
    by (simp add: demo_world_def demo_shape)
  ultimately have "shape_of (store ?w1) =
      ([([''Product''], VStr ''p1''), ([''Supplier''], VStr ''s1''), ([''Warehouse''], VStr ''w1''),
        ([''Product''], VStr ''p2''), ([''Supplier''], VStr ''s2''), ([''Warehouse''], VStr ''w2'')],
       [(''CONNECTED_TO'', 2, 5), (''SUPPLIES'', 1, 0), (''STORED_AT'', 0, 2), (''STORED_AT'', 3, 5)])"
    by (simp only: s0 demo_plan_shape)
  then have "length (map (\<lambda>n. (labels n, props n ''id'')) (nodes (store ?w1))) = 6"
    and "length (map (\<lambda>e. (etype e, src e, dst e)) (edges (store ?w1))) = 4"
    unfolding shape_of_def by simp_all
  then have n: "length (nodes (store ?w1)) = 6" and e: "length (edges (store ?w1)) = 4"
    by simp_all
  from second_load_creates_nothing [OF first] show ?thesis
    using n e by auto
qed

end
